theory Spec2Isabelle
  imports Complex_Main "HOL-Library.AList" "HOL-Library.Multiset"
begin

section \<open>Pointing clusters for a target catalogue (vastligo/clustering.py)\<close>

text \<open>
  The module groups sky positions into telescope pointings. Its own functions are embedded
  below, one definition per function and with the source's names. Three things are not
  code of the module and are treated as follows.

  \<^item> numpy floats are real numbers. The one float effect that changes the control flow,
    the division by \<open>8*K**2 = 0\<close> in \<open>calc_circumcentre\<close> (numpy warns and yields NaN,
    it does not raise), is written out: a centre is a \<open>'p option\<close> and \<open>None\<close> is the
    coordinate with NaN components.
  \<^item> astropy's \<open>SkyCoord\<close> is a parameter: a record \<open>lib\<close> of the three operations the
    module calls (\<open>.cartesian\<close>, \<open>SkyCoord(representation)\<close>, \<open>.separation\<close> in degrees).
    \<open>sphere\<close> is the instance with exact spherical geometry.
  \<^item> scipy's \<open>linkage\<close> is not under src. What it does for fewer than two targets is
    modelled (it raises); for two or more its result, the linkage matrix, is an input.
\<close>

subsection \<open>Errors\<close>

datatype error = IndexError | KeyError | ValueError | UnboundLocalError

subsection \<open>CartesianRepresentation: vectors of three reals\<close>

type_synonym vec = "real \<times> real \<times> real"

fun vadd :: "vec \<Rightarrow> vec \<Rightarrow> vec" where
  "vadd (x1, y1, z1) (x2, y2, z2) = (x1 + x2, y1 + y2, z1 + z2)"

fun vsub :: "vec \<Rightarrow> vec \<Rightarrow> vec" where
  "vsub (x1, y1, z1) (x2, y2, z2) = (x1 - x2, y1 - y2, z1 - z2)"

fun smul :: "real \<Rightarrow> vec \<Rightarrow> vec" where
  "smul k (x, y, z) = (k * x, k * y, k * z)"

fun vdiv :: "vec \<Rightarrow> real \<Rightarrow> vec" where
  "vdiv (x, y, z) k = (x / k, y / k, z / k)"

fun dot :: "vec \<Rightarrow> vec \<Rightarrow> real" where
  "dot (x1, y1, z1) (x2, y2, z2) = x1 * x2 + y1 * y2 + z1 * z2"

fun cross :: "vec \<Rightarrow> vec \<Rightarrow> vec" where
  "cross (x1, y1, z1) (x2, y2, z2) = (y1 * z2 - z1 * y2, z1 * x2 - x1 * z2, x1 * y2 - y1 * x2)"

definition vnorm :: "vec \<Rightarrow> real" where
  "vnorm v = sqrt (dot v v)"

definition vsum :: "vec list \<Rightarrow> vec" where
  "vsum vs = fold (\<lambda>v acc. vadd acc v) vs (0, 0, 0)"

subsection \<open>The operations of astropy the module calls\<close>

record 'p skylib =
  cartesian :: "'p \<Rightarrow> vec"
  SkyCoord :: "vec \<Rightarrow> 'p"
  separation :: "'p \<Rightarrow> 'p \<Rightarrow> real"

text \<open>
  A value of Python type SkyCoord is one position (\<open>Scalar\<close>) or an array of positions
  (\<open>Array\<close>); \<open>coords[members]\<close> is an array.
\<close>

datatype 'p skycoord = Scalar 'p | Array "'p list"

subsection \<open>numpy indexing and reductions\<close>

text \<open>\<open>xs[idx]\<close> for an index array: IndexError when an index is out of range.\<close>

definition take_coords :: "'a list \<Rightarrow> nat list \<Rightarrow> error + 'a list" where
  "take_coords xs idx =
     (if list_all (\<lambda>i. i < length xs) idx then Inr (map (\<lambda>i. xs ! i) idx) else Inl IndexError)"

text \<open>A two-dimensional array is the list of its rows; \<open>shape\<close> is \<open>(rows, columns)\<close>.\<close>

definition shape :: "real list list \<Rightarrow> nat \<times> nat" where
  "shape m = (length m, case m of [] \<Rightarrow> 0 | r # _ \<Rightarrow> length r)"

text \<open>\<open>seps[:,members]\<close>\<close>

definition take_columns :: "real list list \<Rightarrow> nat list \<Rightarrow> error + real list list" where
  "take_columns m idx =
     (if list_all (\<lambda>j. j < snd (shape m)) idx
      then Inr (map (\<lambda>r. map (\<lambda>j. r ! j) idx) m) else Inl IndexError)"

text \<open>\<open>m[members,:]\<close>\<close>

definition take_rows :: "real list list \<Rightarrow> nat list \<Rightarrow> error + real list list" where
  "take_rows m idx =
     (if list_all (\<lambda>i. i < length m) idx then Inr (map (\<lambda>i. m ! i) idx) else Inl IndexError)"

text \<open>\<open>np.max\<close> and \<open>np.argmax\<close> (the first index of the maximum); both raise on an empty array.\<close>

fun np_max :: "real list \<Rightarrow> error + real" where
  "np_max [] = Inl ValueError"
| "np_max (x # xs) = Inr (fold max xs x)"

fun argmax_from :: "real list \<Rightarrow> nat \<Rightarrow> real \<Rightarrow> nat \<Rightarrow> nat" where
  "argmax_from [] i best bi = bi"
| "argmax_from (x # xs) i best bi =
     (if best < x then argmax_from xs (Suc i) x i else argmax_from xs (Suc i) best bi)"

fun np_argmax :: "real list \<Rightarrow> error + nat" where
  "np_argmax [] = Inl ValueError"
| "np_argmax (x # xs) = Inr (argmax_from xs 1 x 0)"

text \<open>\<open>np.round(x, 5)\<close>: the scaled value is rounded to the nearest integer, halves to even.\<close>

definition rint :: "real \<Rightarrow> int" where
  "rint x =
     (let f = \<lfloor>x\<rfloor>; d = x - of_int f
      in if d < 1 / 2 then f else if 1 / 2 < d then f + 1 else if even f then f else f + 1)"

definition np_round5 :: "real \<Rightarrow> real" where
  "np_round5 x = of_int (rint (x * 100000)) / 100000"

subsection \<open>calc_separation\<close>

definition calc_separation :: "'p skylib \<Rightarrow> 'p list \<Rightarrow> real list list" where
  "calc_separation lib coords =
     map (\<lambda>coord. map (\<lambda>other. np_round5 (separation lib coord other)) coords) coords"

subsection \<open>The beam: get_rad and beam_fit\<close>

definition fwhm_default :: real where
  "fwhm_default = 48.3"

definition nu_default :: real where
  "nu_default = 5.5"

text \<open>
  \<open>get_rad\<close> is meant for \<open>P\<close> in \<open>(0, 1]\<close>; outside, numpy yields NaN or infinity (the
  logarithm of a non-positive number, the square root of a negative one). The module
  calls it with \<open>num_targets**-0.5\<close> only.
\<close>

definition get_rad :: "real \<Rightarrow> real \<Rightarrow> real \<Rightarrow> real" where
  "get_rad P fwhm nu = (let rad = 0.5 * fwhm * sqrt (- ln P / ln 2) / nu in rad / 60)"

definition beam_fit :: "real \<Rightarrow> real \<Rightarrow> real \<Rightarrow> real" where
  "beam_fit x fwhm nu = exp (- 4 * ln 2 * (x * nu / fwhm)\<^sup>2)"

subsection \<open>extract_levels\<close>

text \<open>
  A row of the linkage matrix: the two merged ids, the linkage distance, the size. The
  ids are whole numbers (stored as floats in the matrix). \<open>clusters\<close> is a dict: an
  association list in insertion order.
\<close>

type_synonym linkage_row = "nat \<times> nat \<times> real \<times> nat"

type_synonym clusters = "(nat \<times> nat list) list"

definition pull_glob :: "nat \<Rightarrow> clusters \<Rightarrow> nat list \<Rightarrow> nat \<Rightarrow> error + nat list" where
  "pull_glob n clusters this_clust glob =
     (if int glob > int n - 1
      then (case map_of clusters glob of
              None \<Rightarrow> Inl KeyError
            | Some ms \<Rightarrow> Inr (this_clust @ ms))
      else Inr (this_clust @ [glob]))"

fun extract_rows :: "linkage_row list \<Rightarrow> nat \<Rightarrow> nat \<Rightarrow> clusters \<Rightarrow> error + clusters" where
  "extract_rows [] row n clusters = Inr clusters"
| "extract_rows ((glob1, glob2, d, sz) # rest) row n clusters =
     (let cluster_n = row + n in
      case pull_glob n clusters [] glob1 of
        Inl e \<Rightarrow> Inl e
      | Inr c1 \<Rightarrow>
          (case pull_glob n clusters c1 glob2 of
             Inl e \<Rightarrow> Inl e
           | Inr this_clust \<Rightarrow>
               extract_rows rest (Suc row) n (AList.update cluster_n this_clust clusters)))"

definition extract_levels :: "linkage_row list \<Rightarrow> 'l list \<Rightarrow> error + clusters" where
  "extract_levels row_clusters labels = extract_rows row_clusters 0 (length labels) []"

subsection \<open>calc_centroid, calc_circumcentre, get_centre\<close>

definition calc_centroid :: "'p skylib \<Rightarrow> 'p list \<Rightarrow> 'p" where
  "calc_centroid lib coords = SkyCoord lib (vsum (map (cartesian lib) coords))"

text \<open>
  \<open>None\<close> is the NaN coordinate: with \<open>K = 0\<close> the cross product \<open>AB\<close> is the zero
  vector, the quotient is \<open>0/0\<close> in every component and \<open>E\<close> is NaN.
\<close>

fun calc_circumcentre :: "'p skylib \<Rightarrow> 'p list \<Rightarrow> error + 'p option" where
  "calc_circumcentre lib (p0 # p1 # p2 # rest) =
     (let c0 = cartesian lib p0; c1 = cartesian lib p1; c2 = cartesian lib p2;
          A = vsub c1 c0;
          B = vsub c2 c1;
          C = vsub c0 c2;
          a = vnorm A;
          b = vnorm B;
          c = vnorm C;
          AB = cross A B;
          K = 0.5 * vnorm AB
      in if 8 * K\<^sup>2 = 0 then Inr None
         else Inr (Some (SkyCoord lib
                (vadd (smul 0.5 (vadd c0 c2)) (vdiv (smul (dot A B) (cross C AB)) (8 * K\<^sup>2))))))"
| "calc_circumcentre lib coords = Inl IndexError"

definition subset_seps :: "real list list \<Rightarrow> nat list \<Rightarrow> error + real list list" where
  "subset_seps seps members =
     (case take_columns seps members of
        Inl e \<Rightarrow> Inl e
      | Inr cols \<Rightarrow> take_rows cols members)"

definition get_centre ::
  "'p skylib \<Rightarrow> nat list \<Rightarrow> 'p list \<Rightarrow> real list list \<Rightarrow> error + 'p option" where
  "get_centre lib members coords seps =
     (case subset_seps seps members of
        Inl e \<Rightarrow> Inl e
      | Inr sub \<Rightarrow>
          if members = [] then Inl IndexError
          else
            (case take_coords coords [hd members, last members] of
               Inl e \<Rightarrow> Inl e
             | Inr ends \<Rightarrow>
                 let centre = calc_centroid lib ends in
                 (case take_coords coords members of
                    Inl e \<Rightarrow> Inl e
                  | Inr cm \<Rightarrow>
                      let dists = map (separation lib centre) cm in
                      (case np_argmax dists of
                         Inl e \<Rightarrow> Inl e
                       | Inr max_dist_arg \<Rightarrow>
                           if max_dist_arg \<noteq> 0 \<and> int max_dist_arg \<noteq> int (length dists) - 1
                           then
                             (case take_coords coords
                                     [hd members, members ! max_dist_arg, last members] of
                                Inl e \<Rightarrow> Inl e
                              | Inr coords_3 \<Rightarrow> calc_circumcentre lib coords_3)
                           else Inr (Some centre)))))"

subsection \<open>do_clustering\<close>

text \<open>A value of the returned dict: \<open>{'members': .., 'centroid': .., 'int_time': ..}\<close>.\<close>

record 'p info =
  members :: "nat list"
  centroid :: "'p skycoord"
  int_time :: real

text \<open>
  The local variables of \<open>do_clustering\<close>. \<open>loop_members\<close> is the variable \<open>members\<close>:
  unbound (\<open>None\<close>) until the first iteration of the first loop binds it, and still
  bound to its last value when the second loop reads it. \<open>int_times\<close> is the local array
  \<open>int_time\<close>.
\<close>

record 'p state =
  assigned :: "nat list"
  clusters :: "nat list"
  clustering :: "nat list"
  centroids :: "(nat \<times> 'p) list"
  int_times :: "real list"
  cluster_info :: "(nat \<times> 'p info) list"
  loop_members :: "nat list option"

definition init_state :: "'p list \<Rightarrow> 'p state" where
  "init_state coords =
     \<lparr>assigned = [], clusters = [], clustering = [0..<length coords], centroids = [],
      int_times = replicate (length coords) 1, cluster_info = [], loop_members = None\<rparr>"

text \<open>\<open>arr[members] = v\<close>\<close>

definition assign_at :: "nat list \<Rightarrow> 'a \<Rightarrow> 'a list \<Rightarrow> 'a list" where
  "assign_at idx v arr = fold (\<lambda>i a. a[i := v]) idx arr"

text \<open>The body of the \<open>if dist_from_centre < break_even_dist\<close> branch.\<close>

definition accept :: "nat \<Rightarrow> nat list \<Rightarrow> 'p \<Rightarrow> real \<Rightarrow> 'p state \<Rightarrow> 'p state" where
  "accept c_num ms centre dist_from_centre st =
     (let num_targets = length ms;
          P = beam_fit (dist_from_centre * 60) fwhm_default nu_default;
          rel_int_time = P powi (- 2) / real num_targets
      in st\<lparr>assigned := assigned st @ ms,
            clusters := clusters st @ [c_num],
            centroids := AList.update c_num centre (centroids st),
            clustering := assign_at ms c_num (clustering st),
            int_times := assign_at ms rel_int_time (int_times st),
            cluster_info :=
              AList.update c_num
                \<lparr>members = ms, centroid = Scalar centre, int_time = rel_int_time\<rparr>
                (cluster_info st)\<rparr>)"

text \<open>
  One iteration of the first loop. A NaN centre (\<open>None\<close>) makes every separation NaN, so
  \<open>dist_from_centre\<close> is NaN and the comparison is False.
\<close>

definition cluster_step ::
  "'p skylib \<Rightarrow> 'p list \<Rightarrow> clusters \<Rightarrow> real list list \<Rightarrow> nat \<Rightarrow> 'p state \<Rightarrow> error + 'p state" where
  "cluster_step lib coords all_clusters seps c_num st0 =
     (case map_of all_clusters c_num of
        None \<Rightarrow> Inl KeyError
      | Some ms \<Rightarrow>
          let st = st0\<lparr>loop_members := Some ms\<rparr> in
          if set ms \<inter> set (assigned st) \<noteq> {} then Inr st
          else
            let num_targets = length ms in
            (case get_centre lib ms coords seps of
               Inl e \<Rightarrow> Inl e
             | Inr centre \<Rightarrow>
                 (case take_coords coords ms of
                    Inl e \<Rightarrow> Inl e
                  | Inr coords_members \<Rightarrow>
                      let break_even_dist =
                            get_rad (real num_targets powr (- 0.5)) fwhm_default nu_default in
                      (case centre of
                         None \<Rightarrow> Inr st
                       | Some c \<Rightarrow>
                           (case np_max (map (separation lib c) coords_members) of
                              Inl e \<Rightarrow> Inl e
                            | Inr dist_from_centre \<Rightarrow>
                                if dist_from_centre < break_even_dist
                                then Inr (accept c_num ms c dist_from_centre st)
                                else Inr st)))))"

fun select_loop ::
  "'p skylib \<Rightarrow> 'p list \<Rightarrow> clusters \<Rightarrow> real list list \<Rightarrow> nat list \<Rightarrow> 'p state \<Rightarrow> error + 'p state" where
  "select_loop lib coords all_clusters seps [] st = Inr st"
| "select_loop lib coords all_clusters seps (c_num # rest) st =
     (case cluster_step lib coords all_clusters seps c_num st of
        Inl e \<Rightarrow> Inl e
      | Inr st' \<Rightarrow> select_loop lib coords all_clusters seps rest st')"

text \<open>
  The second loop. Its record takes \<open>coords[members]\<close> as centroid: \<open>members\<close> is the
  variable of the first loop.
\<close>

fun singles_loop :: "'p list \<Rightarrow> nat list \<Rightarrow> 'p state \<Rightarrow> error + 'p state" where
  "singles_loop coords [] st = Inr st"
| "singles_loop coords (c_num # rest) st =
     (if c_num \<notin> set (assigned st)
      then
        (case loop_members st of
           None \<Rightarrow> Inl UnboundLocalError
         | Some ms \<Rightarrow>
             (case take_coords coords ms of
                Inl e \<Rightarrow> Inl e
              | Inr cm \<Rightarrow>
                  singles_loop coords rest
                    (st\<lparr>cluster_info :=
                          AList.update c_num
                            \<lparr>members = [c_num], centroid = Array cm, int_time = 1\<rparr>
                            (cluster_info st)\<rparr>)))
      else singles_loop coords rest st)"

definition do_clustering ::
  "'p skylib \<Rightarrow> 'p list \<Rightarrow> clusters \<Rightarrow> real list list \<Rightarrow> error + (nat \<times> 'p info) list" where
  "do_clustering lib coords all_clusters seps =
     (case select_loop lib coords all_clusters seps
             (rev (sort (map fst all_clusters))) (init_state coords) of
        Inl e \<Rightarrow> Inl e
      | Inr st \<Rightarrow>
          (case singles_loop coords [0..<length coords] st of
             Inl e \<Rightarrow> Inl e
           | Inr st' \<Rightarrow> Inr (cluster_info st')))"

subsection \<open>The script: separations, clustering, decoding, selection\<close>

text \<open>
  \<open>ssd.squareform\<close> of a square matrix: the condensed vector of the entries above the
  diagonal, row by row. (Before that it checks that the matrix is symmetric with a zero
  diagonal; a run that has a linkage matrix has passed the check.)
\<close>

definition squareform :: "real list list \<Rightarrow> real list" where
  "squareform m = concat (map (\<lambda>i. drop (Suc i) (m ! i)) [0..<length m])"

text \<open>
  Modelled from the spec: scipy's \<open>linkage\<close>, the hierarchical clusterer, is not under
  src. For fewer than two targets clustering is undefined and the run fails fast with an
  explicit condition instead of going on: the condensed matrix is then empty, and scipy
  raises ValueError for it (the number of observations cannot be determined on an empty
  distance matrix). Otherwise it returns the sequence of merge events, the linkage
  matrix: the parameter \<open>linked\<close> stands for what scipy returns for the condensed
  matrix (\<open>dist\<close> in the source, \<open>dist'\<close> here).
\<close>

definition linkage :: "linkage_row list \<Rightarrow> real list \<Rightarrow> error + linkage_row list" where
  "linkage linked dist' = (if dist' = [] then Inl ValueError else Inr linked)"

text \<open>Lines 225 to 234 of the module.\<close>

definition script ::
  "'p skylib \<Rightarrow> 'p list \<Rightarrow> 'l list \<Rightarrow> linkage_row list \<Rightarrow> error + (nat \<times> 'p info) list" where
  "script lib coords labellist linked =
     (let seps = calc_separation lib coords;
          dist' = squareform seps
      in case linkage linked dist' of
           Inl e \<Rightarrow> Inl e
         | Inr Z \<Rightarrow>
             (case extract_levels Z labellist of
                Inl e \<Rightarrow> Inl e
              | Inr all_clusters \<Rightarrow> do_clustering lib coords all_clusters seps))"

subsection \<open>Exact spherical geometry as the library\<close>

text \<open>
  A position is held as astropy holds it: longitude and latitude in degrees (a catalogue
  position), or a Cartesian vector (\<open>SkyCoord(representation)\<close>). \<open>.cartesian\<close> of the
  first is its unit vector. A separation is the angle, in degrees, between the two
  directions; the direction of the zero vector is longitude 0, latitude 0 (what
  \<open>arctan2(0, 0) = 0\<close> gives). The instance is an idealisation: real arithmetic and one
  coordinate frame for all positions.
\<close>

datatype pos = Spherical real real | Cartesian vec

definition radians :: "real \<Rightarrow> real" where
  "radians d = d * pi / 180"

definition degrees :: "real \<Rightarrow> real" where
  "degrees r = r * 180 / pi"

fun sphere_cartesian :: "pos \<Rightarrow> vec" where
  "sphere_cartesian (Spherical lon lat) =
     (cos (radians lat) * cos (radians lon), cos (radians lat) * sin (radians lon),
      sin (radians lat))"
| "sphere_cartesian (Cartesian v) = v"

fun direction :: "pos \<Rightarrow> vec" where
  "direction (Spherical lon lat) = sphere_cartesian (Spherical lon lat)"
| "direction (Cartesian v) = (if vnorm v = 0 then (1, 0, 0) else vdiv v (vnorm v))"

definition sphere_separation :: "pos \<Rightarrow> pos \<Rightarrow> real" where
  "sphere_separation p q = degrees (arccos (dot (direction p) (direction q)))"

definition sphere :: "pos skylib" where
  "sphere = \<lparr>cartesian = sphere_cartesian, SkyCoord = Cartesian, separation = sphere_separation\<rparr>"

subsection \<open>Linkage matrices\<close>

text \<open>
  What scipy documents of a linkage matrix for \<open>n\<close> observations: row \<open>k\<close> merges two
  different clusters that exist at that step and have not been merged yet (observations
  are \<open>0 .. n-1\<close>, row \<open>k\<close> forms cluster \<open>n + k\<close>), and the merging goes on until one
  cluster is left.
\<close>

fun merges_ok :: "nat list \<Rightarrow> nat \<Rightarrow> linkage_row list \<Rightarrow> bool" where
  "merges_ok active next [] = (length active = 1)"
| "merges_ok active next ((a, b, d, sz) # rest) =
     (a \<in> set active \<and> b \<in> set active \<and> a \<noteq> b
      \<and> merges_ok (next # removeAll a (removeAll b active)) (Suc next) rest)"

definition valid_linkage :: "nat \<Rightarrow> linkage_row list \<Rightarrow> bool" where
  "valid_linkage n Z = merges_ok [0..<n] n Z"

subsection \<open>Notions used in the proofs\<close>

text \<open>
  \<open>leaves\<close> is the member list of an id (an observation or a decoded cluster);
  \<open>forest\<close> is the invariant of \<open>extract_levels\<close>: the lists of the clusters not merged
  yet hold every observation exactly once. \<open>selected_ok\<close> is the invariant of the first
  loop of \<open>do_clustering\<close>, \<open>single_info\<close> the entry its second loop adds.
\<close>

definition leaves :: "nat \<Rightarrow> clusters \<Rightarrow> nat \<Rightarrow> nat list" where
  "leaves n cl g = (if g < n then [g] else (case map_of cl g of None \<Rightarrow> [] | Some ms \<Rightarrow> ms))"

definition good_entry :: "nat \<Rightarrow> nat list \<Rightarrow> bool" where
  "good_entry n ms = (ms \<noteq> [] \<and> distinct ms \<and> set ms \<subseteq> {0..<n})"

definition forest :: "nat \<Rightarrow> nat list \<Rightarrow> nat \<Rightarrow> clusters \<Rightarrow> bool" where
  "forest n active next cl =
     (distinct active \<and> set active \<subseteq> {0..<next} \<and> n \<le> next
      \<and> map fst cl = [n..<next]
      \<and> list_all (good_entry n) (map snd cl)
      \<and> (\<Sum>g\<in>#mset active. mset (leaves n cl g)) = mset [0..<n])"

definition selected_ok :: "nat \<Rightarrow> 'p state \<Rightarrow> bool" where
  "selected_ok n st =
     (concat (map (\<lambda>e. members (snd e)) (cluster_info st)) = assigned st
      \<and> distinct (assigned st) \<and> set (assigned st) \<subseteq> {0..<n})"

definition single_info :: "'p list \<Rightarrow> nat list \<Rightarrow> nat \<Rightarrow> nat \<times> 'p info" where
  "single_info coords ms c =
     (c, \<lparr>members = [c], centroid = Array (map (\<lambda>i. coords ! i) ms), int_time = 1\<rparr>)"

subsection \<open>Inputs used as examples\<close>

text \<open>
  Two targets five degrees apart; two pairs of targets (0.01 degrees inside a pair, five
  degrees between the pairs); a catalogue that lists one position twice. All lie on the
  equator. The \<open>after_\<close> states are the states of \<open>do_clustering\<close> after the iterations
  of its first loop on the last two inputs.
\<close>

definition far_pair :: "pos list" where
  "far_pair = [Spherical 0 0, Spherical 5 0]"

definition far_pair_linked :: "linkage_row list" where
  "far_pair_linked = [(0, 1, 5, 2)]"

definition two_pairs :: "pos list" where
  "two_pairs = [Spherical 0 0, Spherical 0.01 0, Spherical 5 0, Spherical 5.01 0]"

definition two_pairs_linked :: "linkage_row list" where
  "two_pairs_linked = [(0, 1, 0.01, 2), (2, 3, 0.01, 2), (4, 5, 5.01, 4)]"

definition two_pairs_labels :: "string list" where
  "two_pairs_labels = [''t0'', ''t1'', ''t2'', ''t3'']"

definition after_root :: "pos state" where
  "after_root = (init_state two_pairs)\<lparr>loop_members := Some [0, 1, 2, 3]\<rparr>"

definition after_right :: "pos state" where
  "after_right = accept 5 [2, 3] (calc_centroid sphere [Spherical 5 0, Spherical 5.01 0]) 0.005
                   (after_root\<lparr>loop_members := Some [2, 3]\<rparr>)"

definition after_left :: "pos state" where
  "after_left = accept 4 [0, 1] (calc_centroid sphere [Spherical 0 0, Spherical 0.01 0]) 0.005
                   (after_right\<lparr>loop_members := Some [0, 1]\<rparr>)"

definition repeated_target :: "pos list" where
  "repeated_target = [Spherical 0 0, Spherical 0.01 0, Spherical 0 0]"

definition repeated_target_clusters :: clusters where
  "repeated_target_clusters = [(3, [1, 2]), (4, [0, 1, 2])]"

definition after_nan :: "pos state" where
  "after_nan = (init_state repeated_target)\<lparr>loop_members := Some [0, 1, 2]\<rparr>"

definition after_pair :: "pos state" where
  "after_pair = accept 3 [1, 2] (calc_centroid sphere [Spherical 0.01 0, Spherical 0 0]) 0.005
                  (after_nan\<lparr>loop_members := Some [1, 2]\<rparr>)"

section \<open>The beam model\<close>

text \<open>
  C5. The two maps of the beam model are inverse to each other: for every relative
  sensitivity \<open>P\<close> in \<open>(0, 1]\<close>, \<open>beam_fit\<close> at the radius \<open>get_rad P\<close> is \<open>P\<close> again.
  \<open>get_rad\<close> returns degrees and \<open>beam_fit\<close> is called with the radius times 60, as
  \<open>do_clustering\<close> calls it. Over the reals the round trip is exact, for every positive
  full width and frequency.
\<close>

theorem beam_round_trip:
  assumes "0 < P" and "P \<le> 1" and "0 < fwhm" and "0 < nu"
  shows "beam_fit (get_rad P fwhm nu * 60) fwhm nu = P"
proof -
  have l2: "ln (2::real) > 0" by simp
  have nn: "0 \<le> - ln P / ln 2" using assms l2 by (simp add: divide_nonpos_pos)
  have "(get_rad P fwhm nu * 60 * nu / fwhm)\<^sup>2 = (0.5 * sqrt (- ln P / ln 2))\<^sup>2"
    using assms by (simp add: get_rad_def)
  also have "\<dots> = 0.25 * (- ln P / ln 2)"
    using nn by (simp add: power_divide)
  finally have "- 4 * ln 2 * (get_rad P fwhm nu * 60 * nu / fwhm)\<^sup>2 = ln P"
    using l2 by simp
  then show ?thesis using assms by (simp add: beam_fit_def)
qed

theorem beam_round_trip_witness:
  "(0::real) < 1 / 2 \<and> (1::real) / 2 \<le> 1 \<and> 0 < fwhm_default \<and> 0 < nu_default
   \<and> beam_fit (get_rad (1 / 2) fwhm_default nu_default * 60) fwhm_default nu_default = 1 / 2"
proof -
  have f: "0 < fwhm_default" and n: "0 < nu_default"
    by (simp_all add: fwhm_default_def nu_default_def)
  have "beam_fit (get_rad (1 / 2) fwhm_default nu_default * 60) fwhm_default nu_default = 1 / 2"
    by (rule beam_round_trip [OF _ _ f n]) simp_all
  with f n show ?thesis by simp
qed

section \<open>The centre of a cluster\<close>

subsection \<open>The separation matrix\<close>

lemma subset_seps_shape:
  "subset_seps seps ms =
     (if list_all (\<lambda>j. j < snd (shape seps)) ms \<and> list_all (\<lambda>i. i < fst (shape seps)) ms
      then Inr (map (\<lambda>i. map (\<lambda>r. map (\<lambda>j. r ! j) ms) seps ! i) ms) else Inl IndexError)"
  by (simp add: subset_seps_def take_columns_def take_rows_def shape_def)

lemma subset_seps_cases:
  assumes "shape s1 = shape s2"
  shows "(subset_seps s1 ms = Inl IndexError \<and> subset_seps s2 ms = Inl IndexError)
       \<or> (\<exists>a b. subset_seps s1 ms = Inr a \<and> subset_seps s2 ms = Inr b)"
  using assms by (simp add: subset_seps_shape)

text \<open>
  C10. \<open>get_centre\<close> computes the separations of the members from \<open>seps\<close> and never
  reads them: for every library, member list and coordinate array, two separation
  matrices of the same shape (two matrices for the same targets) give the same result,
  the same centre or the same error.
\<close>

theorem get_centre_ignores_seps:
  assumes "shape seps1 = shape seps2"
  shows "get_centre lib ms coords seps1 = get_centre lib ms coords seps2"
  using subset_seps_cases [OF assms, of ms]
  by (auto simp: get_centre_def)

theorem get_centre_ignores_seps_witness:
  "shape [[0, 1], [1, 0]] = shape [[0, 5], [5, 0]]
   \<and> get_centre sphere [0, 1] [Spherical 0 0, Spherical 0 90] [[0, 1], [1, 0]]
       = get_centre sphere [0, 1] [Spherical 0 0, Spherical 0 90] [[0, 5], [5, 0]]"
proof -
  have h: "shape [[0, 1], [1, 0]] = shape [[0, 5], [5, 0]]" by (simp add: shape_def)
  show ?thesis using h get_centre_ignores_seps [OF h] by simp
qed

lemma shape_calc_separation:
  "shape (calc_separation lib coords) = (length coords, length coords)"
  by (cases coords) (simp_all add: shape_def calc_separation_def)


lemma squareform_many:
  assumes "2 \<le> length coords"
  shows "squareform (calc_separation lib coords) \<noteq> []"
proof -
  from assms obtain p q rest where c: "coords = p # q # rest"
    by (cases coords; cases "tl coords") auto
  have len: "length (calc_separation lib coords) = length coords"
    by (simp add: calc_separation_def)
  have "0 < length coords" by (simp add: c)
  then have upt: "[0..<length coords] = 0 # [Suc 0..<length coords]" by (rule upt_conv_Cons)
  have row: "drop (Suc 0) (calc_separation lib coords ! 0) \<noteq> []"
    by (simp add: calc_separation_def c)
  show ?thesis
    unfolding squareform_def len upt using row by simp
qed

lemma script_linked:
  assumes "2 \<le> length coords"
  shows "script lib coords labellist linked =
           (case extract_levels linked labellist of
              Inl e \<Rightarrow> Inl e
            | Inr all_clusters \<Rightarrow>
                do_clustering lib coords all_clusters (calc_separation lib coords))"
  using squareform_many [OF assms, of lib] by (simp add: script_def linkage_def Let_def)

lemma get_centre_pair:
  assumes "i < length coords" "j < length coords"
    and "i < fst (shape seps)" "j < fst (shape seps)" "i < snd (shape seps)" "j < snd (shape seps)"
  shows "get_centre lib [i, j] coords seps = Inr (Some (calc_centroid lib [coords ! i, coords ! j]))"
  using assms by (simp add: get_centre_def subset_seps_shape take_coords_def Let_def)

subsection \<open>Vectors and angles\<close>

lemma dot_self_nonneg: "0 \<le> dot v v"
  by (cases v) simp

lemma dot_commute: "dot u v = dot v u"
  by (cases u; cases v) (simp add: mult.commute)

lemma lagrange_identity:
  "dot u u * dot v v - (dot u v)\<^sup>2 = dot (cross u v) (cross u v)"
  by (cases u; cases v) (simp add: power2_eq_square algebra_simps)

lemma cauchy_schwarz: "(dot u v)\<^sup>2 \<le> dot u u * dot v v"
  using lagrange_identity [of u v] dot_self_nonneg [of "cross u v"] by linarith

lemma dot_unit_bounds:
  assumes "dot u u = 1" "dot v v = 1"
  shows "- 1 \<le> dot u v" "dot u v \<le> 1"
proof -
  have "(dot u v)\<^sup>2 \<le> 1" using cauchy_schwarz [of u v] assms by simp
  then have "\<bar>dot u v\<bar> \<le> 1" by (simp add: abs_square_le_1)
  then show "- 1 \<le> dot u v" "dot u v \<le> 1" by auto
qed

lemma spherical_unit: "dot (sphere_cartesian (Spherical l b)) (sphere_cartesian (Spherical l b)) = 1"
proof -
  define cb sb cl sl where "cb = cos (radians b)" and "sb = sin (radians b)"
    and "cl = cos (radians l)" and "sl = sin (radians l)"
  have 1: "cl\<^sup>2 + sl\<^sup>2 = 1" and 2: "cb\<^sup>2 + sb\<^sup>2 = 1"
    by (simp_all add: cb_def sb_def cl_def sl_def)
  have "(cb * cl) * (cb * cl) + (cb * sl) * (cb * sl) + sb * sb = cb\<^sup>2 * (cl\<^sup>2 + sl\<^sup>2) + sb\<^sup>2"
    by (simp add: power2_eq_square algebra_simps)
  also have "\<dots> = 1" by (simp only: 1 2 mult_1_right)
  finally show ?thesis by (simp add: cb_def sb_def cl_def sl_def)
qed

lemma dot_vadd_left: "dot (vadd u v) w = dot u w + dot v w"
  by (cases u; cases v; cases w) (simp add: algebra_simps)

lemma dot_vadd_right: "dot w (vadd u v) = dot w u + dot w v"
  by (cases u; cases v; cases w) (simp add: algebra_simps)

lemma dot_vdiv_left: "dot (vdiv u k) w = dot u w / k"
  by (cases u; cases w) (simp add: add_divide_distrib)

lemma vnorm_zero_iff: "vnorm v = 0 \<longleftrightarrow> v = (0, 0, 0)"
proof (cases v)
  case (fields x y z)
  have "x * x + y * y + z * z = 0 \<longleftrightarrow> x = 0 \<and> y = 0 \<and> z = 0"
    by (smt (verit) mult_eq_0_iff not_sum_squares_lt_zero sum_squares_eq_zero_iff zero_le_square)
  then show ?thesis using fields by (simp add: vnorm_def)
qed

lemma half_angle_arccos:
  assumes "- 1 < c" "c \<le> 1"
  shows "arccos ((1 + c) / sqrt (2 + 2 * c)) = arccos c / 2"
proof -
  define t where "t = arccos c"
  have t: "0 \<le> t" "t \<le> pi" "cos t = c"
    using assms by (simp_all add: t_def arccos_lbound arccos_ubound)
  have h: "0 \<le> t / 2" "t / 2 \<le> pi" using t pi_ge_zero by simp_all
  have "t / 2 \<le> pi / 2" using t by simp
  then have cnn: "0 \<le> cos (t / 2)" using h by (simp add: cos_ge_zero)
  have "(cos (t / 2))\<^sup>2 = (1 + c) / 2"
    using cos_double_cos [of "t / 2"] t by simp
  then have "cos (t / 2) = sqrt ((1 + c) / 2)"
    using cnn by (metis real_sqrt_unique)
  moreover have "(1 + c) / sqrt (2 + 2 * c) = sqrt ((1 + c) / 2)"
  proof -
    have p: "0 < 1 + c" using assms by simp
    have "sqrt (2 + 2 * c) = sqrt 2 * sqrt (1 + c)"
      by (simp add: real_sqrt_mult [symmetric] distrib_left)
    moreover have "1 + c = sqrt (1 + c) * sqrt (1 + c)" using p by simp
    ultimately have "(1 + c) / sqrt (2 + 2 * c) = sqrt (1 + c) / sqrt 2"
      using p by (metis (no_types, opaque_lifting) divide_divide_eq_left' mult.commute nonzero_mult_div_cancel_left real_sqrt_eq_zero_cancel_iff less_irrefl times_divide_eq_right)
    then show ?thesis by (simp add: real_sqrt_divide)
  qed
  ultimately have "arccos ((1 + c) / sqrt (2 + 2 * c)) = arccos (cos (t / 2))" by simp
  also have "\<dots> = t / 2" using h by (simp add: arccos_cos)
  finally show ?thesis by (simp add: t_def)
qed

lemma vadd_zero_left [simp]: "vadd (0, 0, 0) v = v"
  by (cases v) simp

lemma vsum_pair: "vsum [u, v] = vadd u v"
  by (simp add: vsum_def)

lemma sep_bisector:
  assumes u: "dot u u = 1" and v: "dot v v = 1" and nz: "vadd u v \<noteq> (0, 0, 0)"
  shows "arccos (dot (direction (Cartesian (vadd u v))) u) = arccos (dot u v) / 2"
proof -
  let ?c = "dot u v"
  have sq: "dot (vadd u v) (vadd u v) = 2 + 2 * ?c"
    using u v by (simp add: dot_vadd_left dot_vadd_right dot_commute [of v u])
  have n0: "vnorm (vadd u v) \<noteq> 0" using nz by (simp add: vnorm_zero_iff)
  then have "dot (vadd u v) (vadd u v) \<noteq> 0" by (simp add: vnorm_def)
  with dot_self_nonneg [of "vadd u v"] sq have c1: "- 1 < ?c" by simp
  have c2: "?c \<le> 1" using dot_unit_bounds [OF u v] by simp
  have "dot (direction (Cartesian (vadd u v))) u = (1 + ?c) / sqrt (2 + 2 * ?c)"
    using n0 u sq by (simp add: dot_vdiv_left dot_vadd_left dot_commute [of v u] vnorm_def)
  then show ?thesis using half_angle_arccos [OF c1 c2] by simp
qed

subsection \<open>Clusters of two members\<close>

text \<open>
  C6. For a cluster of exactly two members, catalogue positions whose midpoint exists
  (the two unit vectors do not cancel), \<open>get_centre\<close> returns the centroid of the two,
  whose direction is their normalised vector mean; with exact spherical geometry each
  member is at half the separation of the two from it, and so is the maximum member
  distance.
\<close>

theorem pair_centre_is_midpoint:
  assumes i: "i < length coords" and j: "j < length coords"
    and sh: "shape seps = (length coords, length coords)"
    and ci: "coords ! i = Spherical l1 b1" and cj: "coords ! j = Spherical l2 b2"
    and nz: "vadd (sphere_cartesian (coords ! i)) (sphere_cartesian (coords ! j)) \<noteq> (0, 0, 0)"
  shows "\<exists>centre.
           get_centre sphere [i, j] coords seps = Inr (Some centre)
         \<and> centre = calc_centroid sphere [coords ! i, coords ! j]
         \<and> direction centre =
             vdiv (vadd (sphere_cartesian (coords ! i)) (sphere_cartesian (coords ! j)))
                  (vnorm (vadd (sphere_cartesian (coords ! i)) (sphere_cartesian (coords ! j))))
         \<and> sphere_separation centre (coords ! i) = sphere_separation (coords ! i) (coords ! j) / 2
         \<and> sphere_separation centre (coords ! j) = sphere_separation (coords ! i) (coords ! j) / 2
         \<and> np_max (map (separation sphere centre) [coords ! i, coords ! j])
             = Inr (sphere_separation (coords ! i) (coords ! j) / 2)"
proof -
  let ?u = "sphere_cartesian (coords ! i)" and ?v = "sphere_cartesian (coords ! j)"
  let ?centre = "Cartesian (vadd ?u ?v)"
  have u: "dot ?u ?u = 1" and v: "dot ?v ?v = 1"
    using spherical_unit by (simp_all only: ci cj)
  have du: "direction (coords ! i) = ?u" and dv: "direction (coords ! j) = ?v"
    by (simp_all add: ci cj)
  have cen: "calc_centroid sphere [coords ! i, coords ! j] = ?centre"
    by (simp add: calc_centroid_def sphere_def vsum_pair)
  have g: "get_centre sphere [i, j] coords seps = Inr (Some ?centre)"
    using get_centre_pair [of i coords j seps sphere] i j sh cen by simp
  have n0: "vnorm (vadd ?u ?v) \<noteq> 0" using nz by (simp add: vnorm_zero_iff)
  have si: "sphere_separation ?centre (coords ! i) = sphere_separation (coords ! i) (coords ! j) / 2"
    using sep_bisector [OF u v nz] by (simp add: sphere_separation_def du dv degrees_def)
  have nz': "vadd ?v ?u \<noteq> (0, 0, 0)"
    using nz by (cases ?u; cases ?v) (simp add: add.commute)
  have comm: "vadd ?v ?u = vadd ?u ?v"
    by (cases ?u; cases ?v) (simp add: add.commute)
  have sj: "sphere_separation ?centre (coords ! j) = sphere_separation (coords ! i) (coords ! j) / 2"
    using sep_bisector [OF v u nz'] 
    by (simp add: sphere_separation_def du dv degrees_def comm dot_commute [of ?v ?u])
  have mx: "np_max (map (separation sphere ?centre) [coords ! i, coords ! j])
             = Inr (sphere_separation (coords ! i) (coords ! j) / 2)"
    using si sj by (simp add: sphere_def)
  have dir: "direction ?centre = vdiv (vadd ?u ?v) (vnorm (vadd ?u ?v))"
    using n0 by simp
  show ?thesis using g cen dir si sj mx by simp
qed

theorem pair_centre_is_midpoint_witness:
  "(0::nat) < length [Spherical 0 0, Spherical 0 90]
   \<and> (1::nat) < length [Spherical 0 0, Spherical 0 90]
   \<and> shape [[0, 90], [90, 0]]
       = (length [Spherical 0 0, Spherical 0 90], length [Spherical 0 0, Spherical 0 90])
   \<and> vadd (sphere_cartesian ([Spherical 0 0, Spherical 0 90] ! 0))
           (sphere_cartesian ([Spherical 0 0, Spherical 0 90] ! 1)) \<noteq> (0, 0, 0)
   \<and> (\<exists>centre.
         get_centre sphere [0, 1] [Spherical 0 0, Spherical 0 90] [[0, 90], [90, 0]]
           = Inr (Some centre)
       \<and> sphere_separation centre (Spherical 0 0)
           = sphere_separation (Spherical 0 0) (Spherical 0 90) / 2
       \<and> sphere_separation centre (Spherical 0 90)
           = sphere_separation (Spherical 0 0) (Spherical 0 90) / 2)"
proof -
  let ?coords = "[Spherical 0 0, Spherical 0 90]"
  have 1: "(0::nat) < length ?coords" and 2: "(1::nat) < length ?coords" by simp_all
  have 3: "shape [[0, 90], [90, 0]] = (length ?coords, length ?coords)"
    by (simp add: shape_def)
  have 4: "?coords ! 0 = Spherical 0 0" and 5: "?coords ! 1 = Spherical 0 90" by simp_all
  have 6: "vadd (sphere_cartesian (?coords ! 0)) (sphere_cartesian (?coords ! 1)) \<noteq> (0, 0, 0)"
    by (simp add: radians_def)
  show ?thesis
    using 1 2 3 6 pair_centre_is_midpoint [OF 1 2 3 4 5 6] by auto
qed

subsection \<open>Positions on the equator\<close>

lemma equator_cartesian: "sphere_cartesian (Spherical a 0) = (cos (radians a), sin (radians a), 0)"
  by (simp add: radians_def)

lemma arccos_cos_abs: "\<bar>x\<bar> \<le> pi \<Longrightarrow> arccos (cos x) = \<bar>x\<bar>"
  using arccos_cos [of "\<bar>x\<bar>"] by simp

lemma sep_of_directions:
  assumes "direction p = (cos (radians a), sin (radians a), 0)"
    and "direction q = (cos (radians b), sin (radians b), 0)"
    and "\<bar>a - b\<bar> \<le> 180"
  shows "sphere_separation p q = \<bar>a - b\<bar>"
proof -
  have "dot (direction p) (direction q) = cos (radians a - radians b)"
    by (simp add: assms cos_diff)
  moreover have "radians a - radians b = radians (a - b)"
    by (simp add: radians_def diff_divide_distrib left_diff_distrib)
  moreover have "\<bar>radians (a - b)\<bar> \<le> pi"
  proof -
    have "\<bar>radians (a - b)\<bar> = \<bar>a - b\<bar> * pi / 180" by (simp add: radians_def abs_mult)
    also have "\<dots> \<le> 180 * pi / 180" using assms(3) by (simp add: mult_right_mono)
    finally show ?thesis by simp
  qed
  ultimately have "arccos (dot (direction p) (direction q)) = \<bar>radians (a - b)\<bar>"
    by (simp add: arccos_cos_abs)
  then show ?thesis
    by (simp add: sphere_separation_def degrees_def radians_def abs_mult)
qed

lemma direction_equator:
  "direction (Spherical a 0) = (cos (radians a), sin (radians a), 0)"
  by (simp add: radians_def)

lemma direction_centroid_equator:
  assumes "\<bar>a - b\<bar> < 180"
  shows "direction (Cartesian (vadd (sphere_cartesian (Spherical a 0))
                                     (sphere_cartesian (Spherical b 0))))
         = (cos (radians ((a + b) / 2)), sin (radians ((a + b) / 2)), 0)"
proof -
  let ?m = "radians ((a + b) / 2)" and ?h = "radians ((a - b) / 2)"
  have ra: "radians a = ?m + ?h" and rb: "radians b = ?m - ?h"
    by (simp_all add: radians_def field_simps)
  have "\<bar>?h\<bar> < pi / 2"
  proof -
    have "\<bar>?h\<bar> = \<bar>a - b\<bar> * pi / 360" by (simp add: radians_def abs_mult)
    also have "\<dots> < 180 * pi / 360" using assms by (simp add: mult_strict_right_mono)
    finally show ?thesis by simp
  qed
  then have ch: "0 < cos ?h" by (simp add: cos_gt_zero_pi abs_less_iff)
  have x: "cos (radians a) + cos (radians b) = 2 * cos ?m * cos ?h"
    unfolding ra rb by (simp add: cos_add cos_diff)
  have y: "sin (radians a) + sin (radians b) = 2 * sin ?m * cos ?h"
    unfolding ra rb by (simp add: sin_add sin_diff)
  have sq: "(2 * cm * k) * (2 * cm * k) + (2 * sm * k) * (2 * sm * k) = (2 * k)\<^sup>2"
    if "cm\<^sup>2 + sm\<^sup>2 = 1" for cm sm k :: real
  proof -
    have "(2 * cm * k) * (2 * cm * k) + (2 * sm * k) * (2 * sm * k)
          = (2 * k)\<^sup>2 * (cm\<^sup>2 + sm\<^sup>2)"
      by (simp add: power2_eq_square algebra_simps)
    then show ?thesis by (simp only: that mult_1_right)
  qed
  have "(2 * cos ?m * cos ?h) * (2 * cos ?m * cos ?h) + (2 * sin ?m * cos ?h) * (2 * sin ?m * cos ?h)
        = (2 * cos ?h)\<^sup>2"
    by (rule sq) simp
  then have "dot (2 * cos ?m * cos ?h, 2 * sin ?m * cos ?h, 0)
                  (2 * cos ?m * cos ?h, 2 * sin ?m * cos ?h, 0) = (2 * cos ?h)\<^sup>2"
    by simp
  then have "vnorm (2 * cos ?m * cos ?h, 2 * sin ?m * cos ?h, 0) = \<bar>2 * cos ?h\<bar>"
    by (simp only: vnorm_def real_sqrt_abs)
  then have n: "vnorm (2 * cos ?m * cos ?h, 2 * sin ?m * cos ?h, 0) = 2 * cos ?h"
    using ch by simp
  have "vadd (sphere_cartesian (Spherical a 0)) (sphere_cartesian (Spherical b 0))
        = (2 * cos ?m * cos ?h, 2 * sin ?m * cos ?h, 0)"
    by (simp only: equator_cartesian vadd.simps x y) simp
  then show ?thesis using n ch by simp
qed

lemma sep_centroid_equator:
  assumes "\<bar>a - b\<bar> < 180" and "\<bar>(a + b) / 2 - c\<bar> \<le> 180"
  shows "sphere_separation (Cartesian (vadd (sphere_cartesian (Spherical a 0))
                                             (sphere_cartesian (Spherical b 0))))
           (Spherical c 0) = \<bar>(a + b) / 2 - c\<bar>"
  by (rule sep_of_directions [OF direction_centroid_equator [OF assms(1)] direction_equator assms(2)])

section \<open>Decoding the merge tree\<close>

lemma update_fresh: "k \<notin> fst ` set al \<Longrightarrow> AList.update k v al = al @ [(k, v)]"
  by (induction al) auto

lemma merges_ok_length:
  "merges_ok active next Z \<Longrightarrow> distinct active \<Longrightarrow> next \<notin> set active
     \<Longrightarrow> (\<forall>g\<in>set active. g < next) \<Longrightarrow> Suc (length Z) = length active"
proof (induction Z arbitrary: active "next")
  case Nil
  then show ?case by simp
next
  case (Cons r Z)
  obtain a b d sz where r: "r = (a, b, d, sz)" by (cases r)
  let ?act = "removeAll a (removeAll b active)"
  from Cons.prems r have ab: "a \<in> set active" "b \<in> set active" "a \<noteq> b"
    and ok: "merges_ok (next # ?act) (Suc next) Z" by simp_all
  have d: "distinct (next # ?act)" using Cons.prems by (simp add: distinct_removeAll)
  have "Suc (length Z) = length (next # ?act)"
    by (rule Cons.IH [OF ok d]) (use Cons.prems in auto)
  moreover have "length ?act = length active - 2"
  proof -
    have "length (removeAll b active) = length active - 1"
      using Cons.prems(2) ab by (simp add: distinct_remove1_removeAll [symmetric] length_remove1)
    moreover have "a \<in> set (removeAll b active)" using ab by simp
    moreover have "distinct (removeAll b active)" using Cons.prems(2) by (simp add: distinct_removeAll)
    ultimately show ?thesis
      by (simp add: distinct_remove1_removeAll [symmetric] length_remove1)
  qed
  moreover have "2 \<le> length active"
  proof -
    have "card {a, b} \<le> card (set active)" using ab by (intro card_mono) auto
    then show ?thesis using ab Cons.prems(2) by (simp add: distinct_card)
  qed
  ultimately show ?case by simp
qed

lemma valid_linkage_length: "valid_linkage n Z \<Longrightarrow> Suc (length Z) = n"
  using merges_ok_length [of "[0..<n]" n Z] by (simp add: valid_linkage_def)

lemma pull_glob_leaves:
  assumes "g < n \<or> map_of cl g \<noteq> None"
  shows "pull_glob n cl acc g = Inr (acc @ leaves n cl g)"
  using assms by (auto simp: pull_glob_def leaves_def)

lemma forest_key:
  assumes "forest n active next cl" and "g \<in> set active"
  shows "g < n \<or> map_of cl g \<noteq> None"
proof (cases "g < n")
  case False
  from assms have "g < next" by (auto simp: forest_def)
  with False have "g \<in> set [n..<next]" by simp
  then have "g \<in> fst ` set cl" using assms(1) by (metis forest_def set_map)
  then show ?thesis by (simp add: map_of_eq_None_iff)
qed simp

lemma good_leaves:
  assumes "list_all (good_entry n) (map snd cl)" and "g < n \<or> map_of cl g \<noteq> None"
  shows "leaves n cl g \<noteq> []"
proof (cases "g < n")
  case False
  with assms(2) obtain ms where ms: "map_of cl g = Some ms" by auto
  then have "ms \<in> set (map snd cl)" by (force dest: map_of_SomeD)
  with assms(1) have "good_entry n ms" by (auto simp: list_all_iff)
  with ms False show ?thesis by (simp add: leaves_def good_entry_def)
qed (simp add: leaves_def)

lemma mset_remove_two:
  assumes "distinct xs" "a \<in> set xs" "b \<in> set xs" "a \<noteq> b"
  shows "mset xs = add_mset a (add_mset b (mset (removeAll a (removeAll b xs))))"
proof -
  have 1: "mset (removeAll b xs) = mset xs - {#b#}"
    using assms by (simp add: distinct_remove1_removeAll [symmetric])
  have d: "distinct (removeAll b xs)" using assms by (simp add: distinct_removeAll)
  have 2: "mset (removeAll a (removeAll b xs)) = mset (removeAll b xs) - {#a#}"
    using d by (simp add: distinct_remove1_removeAll [symmetric])
  have ain: "a \<in># mset xs - {#b#}" using assms by (simp add: in_diff_count)
  have bin: "b \<in># mset xs" using assms by simp
  have "mset xs = add_mset b (mset xs - {#b#})" by (rule insert_DiffM [symmetric, OF bin])
  also have "mset xs - {#b#} = add_mset a (mset xs - {#b#} - {#a#})"
    by (rule insert_DiffM [symmetric, OF ain])
  finally have "mset xs = add_mset b (add_mset a (mset xs - {#b#} - {#a#}))" .
  then show ?thesis unfolding 2 1 by (simp only: add_mset_commute)
qed

lemma leaves_append_other: "g \<noteq> k \<Longrightarrow> leaves n (cl @ [(k, v)]) g = leaves n cl g"
  by (simp add: leaves_def map_add_def split: option.splits)

lemma leaves_append_new: "n \<le> k \<Longrightarrow> map_of cl k = None \<Longrightarrow> leaves n (cl @ [(k, v)]) k = v"
  by (simp add: leaves_def map_add_def)

lemma submultiset_good:
  assumes "mset ms + R = mset [0..<n]" and "ms \<noteq> []"
  shows "good_entry n ms"
proof -
  have sub: "mset ms \<subseteq># mset [0..<n]" using assms(1) by (metis mset_subset_eq_add_left)
  have upt: "count (mset [0..<n]) a \<le> 1" for a
    using distinct_upt [of 0 n] unfolding distinct_count_atmost_1 by simp
  have le: "count (mset ms) a \<le> 1" for a
    using mset_subset_eq_count [OF sub, of a] upt [of a] by simp
  have "count (mset ms) a = (if a \<in> set ms then 1 else 0)" for a
  proof (cases "a \<in> set ms")
    case True
    then have "1 \<le> count (mset ms) a" by (simp add: Suc_le_eq)
    with le [of a] have "count (mset ms) a = 1" by linarith
    with True show ?thesis by simp
  qed simp
  then have "distinct ms" unfolding distinct_count_atmost_1 by blast
  moreover have "set ms \<subseteq> {0..<n}" using set_mset_mono [OF sub] by simp
  ultimately show ?thesis using assms(2) by (simp add: good_entry_def)
qed

lemma forest_step:
  assumes F: "forest n active next cl"
    and a: "a \<in> set active" and b: "b \<in> set active" and ab: "a \<noteq> b"
  shows "forest n (next # removeAll a (removeAll b active)) (Suc next)
           (AList.update next (leaves n cl a @ leaves n cl b) cl)"
proof -
  let ?tc = "leaves n cl a @ leaves n cl b"
  let ?rest = "removeAll a (removeAll b active)"
  let ?cl' = "AList.update next ?tc cl"
  from F have dist: "distinct active" and sub: "set active \<subseteq> {0..<next}" and nn: "n \<le> next"
    and keys: "map fst cl = [n..<next]" and good: "list_all (good_entry n) (map snd cl)"
    and sum: "(\<Sum>g\<in>#mset active. mset (leaves n cl g)) = mset [0..<n]"
    by (simp_all add: forest_def)
  have fresh: "next \<notin> fst ` set cl"
  proof -
    have "fst ` set cl = set [n..<next]" using keys by (metis set_map)
    then show ?thesis by simp
  qed
  then have cl': "?cl' = cl @ [(next, ?tc)]" by (rule update_fresh)
  have none: "map_of cl next = None" using fresh by (simp add: map_of_eq_None_iff)
  have same: "leaves n ?cl' g = leaves n cl g" if "g \<noteq> next" for g
    using that unfolding cl' by (rule leaves_append_other)
  have new: "leaves n ?cl' next = ?tc"
    unfolding cl' using nn none by (rule leaves_append_new)
  have restlt: "g \<noteq> next" if "g \<in> set ?rest" for g using that sub by auto
  have ms: "mset active = add_mset a (add_mset b (mset ?rest))"
    by (rule mset_remove_two [OF dist a b ab])
  have "(\<Sum>g\<in>#mset ?rest. mset (leaves n ?cl' g)) = (\<Sum>g\<in>#mset ?rest. mset (leaves n cl g))"
    by (rule arg_cong [where f = sum_mset], rule image_mset_cong) (simp add: same restlt)
  then have sum': "(\<Sum>g\<in>#mset (next # ?rest). mset (leaves n ?cl' g)) = mset [0..<n]"
    using sum by (simp add: ms new add.assoc)
  have tcne: "?tc \<noteq> []"
    using good_leaves [OF good forest_key [OF F a]] by simp
  have "mset ?tc + (\<Sum>g\<in>#mset ?rest. mset (leaves n cl g)) = mset [0..<n]"
    using sum by (simp add: ms add.assoc)
  then have gtc: "good_entry n ?tc" using tcne by (rule submultiset_good)
  have "distinct (next # ?rest)" using dist sub by (auto simp: distinct_removeAll)
  moreover have "set (next # ?rest) \<subseteq> {0..<Suc next}" using sub by auto
  moreover have "map fst ?cl' = [n..<Suc next]" using keys nn by (simp add: cl')
  moreover have "list_all (good_entry n) (map snd ?cl')" using good gtc by (simp add: cl')
  ultimately show ?thesis using sum' nn unfolding forest_def by simp
qed

lemma extract_rows_forest:
  "merges_ok active (row + n) Z \<Longrightarrow> forest n active (row + n) cl \<Longrightarrow>
     \<exists>cl' g. extract_rows Z row n cl = Inr cl' \<and> forest n [g] (row + length Z + n) cl'
           \<and> g = (if Z = [] then hd active else row + length Z + n - 1)"
proof (induction Z arbitrary: active row cl)
  case Nil
  then obtain g where "active = [g]" by (cases active) auto
  with Nil show ?case by auto
next
  case (Cons r Z)
  obtain a b d sz where r: "r = (a, b, d, sz)" by (cases r)
  let ?next = "row + n"
  let ?act = "?next # removeAll a (removeAll b active)"
  let ?cl' = "AList.update ?next (leaves n cl a @ leaves n cl b) cl"
  from Cons.prems r have a: "a \<in> set active" and b: "b \<in> set active" and ab: "a \<noteq> b"
    and ok: "merges_ok ?act (Suc row + n) Z" by simp_all
  have F': "forest n ?act (Suc row + n) ?cl'"
    using forest_step [OF Cons.prems(2) a b ab] by simp
  have pa: "pull_glob n cl [] a = Inr (leaves n cl a)"
    using pull_glob_leaves [OF forest_key [OF Cons.prems(2) a], of "[]"] by simp
  have pb: "pull_glob n cl (leaves n cl a) b = Inr (leaves n cl a @ leaves n cl b)"
    by (rule pull_glob_leaves [OF forest_key [OF Cons.prems(2) b]])
  have step: "extract_rows (r # Z) row n cl = extract_rows Z (Suc row) n ?cl'"
    by (simp add: r pa pb)
  from Cons.IH [OF ok F'] obtain cl'' g where
    res: "extract_rows Z (Suc row) n ?cl' = Inr cl''"
    and F'': "forest n [g] (Suc row + length Z + n) cl''"
    and g: "g = (if Z = [] then hd ?act else Suc row + length Z + n - 1)" by blast
  have "g = row + length (r # Z) + n - 1" using g by (cases Z) simp_all
  with step res F'' show ?case by auto
qed

lemma forest_init: "forest n [0..<n] n []"
proof -
  have "(\<Sum>g\<in>#mset [0..<n]. mset (leaves n [] g)) = (\<Sum>g\<in>#mset [0..<n]. {#g#})"
    by (rule arg_cong [where f = sum_mset], rule image_mset_cong) (simp add: leaves_def)
  then show ?thesis by (simp add: forest_def)
qed

lemma extract_levels_forest:
  assumes "valid_linkage n Z" and "length labels = n"
  shows "\<exists>cl g. extract_levels Z labels = Inr cl \<and> forest n [g] (length Z + n) cl
           \<and> g = (if Z = [] then hd [0..<n] else length Z + n - 1)"
proof -
  have "merges_ok [0..<n] (0 + n) Z" using assms by (simp add: valid_linkage_def)
  moreover have "forest n [0..<n] (0 + n) []" using forest_init [of n] by simp
  ultimately obtain cl g where "extract_rows Z 0 n [] = Inr cl"
    and "forest n [g] (0 + length Z + n) cl"
    and "g = (if Z = [] then hd [0..<n] else 0 + length Z + n - 1)"
    using extract_rows_forest [of "[0..<n]" 0 n Z "[]"] by blast
  then show ?thesis using assms by (auto simp: extract_levels_def)
qed

text \<open>
  C7. For \<open>n \<ge> 2\<close> targets a linkage matrix has exactly \<open>n - 1\<close> rows (merge nodes);
  \<open>extract_levels\<close> decodes it without error into the \<open>n - 1\<close> clusters \<open>n .. 2n-2\<close>, and
  the member list of the root \<open>2n-2\<close> holds each of the \<open>n\<close> target indices exactly once.
\<close>

theorem decoder_root:
  assumes v: "valid_linkage n Z" and l: "length labels = n" and n: "2 \<le> n"
  shows "length Z = n - 1
       \<and> (\<exists>cl ms. extract_levels Z labels = Inr cl \<and> map fst cl = [n..<2 * n - 1]
             \<and> map_of cl (2 * n - 2) = Some ms \<and> mset ms = mset [0..<n])"
proof -
  have len: "Suc (length Z) = n" by (rule valid_linkage_length [OF v])
  then have Z: "Z \<noteq> []" using n by auto
  from extract_levels_forest [OF v l] Z obtain cl where
    res: "extract_levels Z labels = Inr cl" and F: "forest n [length Z + n - 1] (length Z + n) cl"
    by auto
  let ?g = "length Z + n - 1"
  have g: "?g = 2 * n - 2" and nx: "length Z + n = 2 * n - 1" using len by simp_all
  have keys: "map fst cl = [n..<2 * n - 1]" using F nx by (simp add: forest_def)
  have sum: "mset (leaves n cl ?g) = mset [0..<n]" using F by (simp add: forest_def)
  have "\<not> ?g < n" using n len by simp
  moreover have "map_of cl ?g \<noteq> None"
    using forest_key [OF F, of ?g] calculation by simp
  ultimately obtain ms where ms: "map_of cl ?g = Some ms" and "leaves n cl ?g = ms"
    by (auto simp: leaves_def)
  with sum have "mset ms = mset [0..<n]" by simp
  with res keys ms g len show ?thesis by auto
qed

theorem decoder_root_witness:
  "valid_linkage 4 two_pairs_linked \<and> length two_pairs_labels = 4 \<and> (2::nat) \<le> 4
   \<and> length two_pairs_linked = 4 - 1
   \<and> (\<exists>cl ms. extract_levels two_pairs_linked two_pairs_labels = Inr cl
         \<and> map fst cl = [4..<2 * 4 - 1]
         \<and> map_of cl (2 * 4 - 2) = Some ms \<and> mset ms = mset [0..<4])"
proof -
  have v: "valid_linkage 4 two_pairs_linked"
    by (simp add: valid_linkage_def two_pairs_linked_def upt_rec)
  have l: "length two_pairs_labels = 4" by (simp add: two_pairs_labels_def)
  have n: "(2::nat) \<le> 4" by simp
  show ?thesis using v l decoder_root [OF v l n] by simp
qed

section \<open>The greedy selection\<close>

subsection \<open>One candidate cluster\<close>

lemma argmax_from_bound: "bi < i \<Longrightarrow> argmax_from xs i best bi < i + length xs"
  by (induction xs i best bi rule: argmax_from.induct) auto

lemma np_argmax_bound: "xs \<noteq> [] \<Longrightarrow> \<exists>k. np_argmax xs = Inr k \<and> k < length xs"
  using argmax_from_bound [of 0 1] by (cases xs) auto

lemma take_coords_ok:
  "set idx \<subseteq> {0..<length xs} \<Longrightarrow> take_coords xs idx = Inr (map (\<lambda>i. xs ! i) idx)"
  by (auto simp: take_coords_def list_all_iff)

lemma calc_circumcentre_three: "\<exists>c. calc_circumcentre lib [p0, p1, p2] = Inr c"
  by (simp add: Let_def)

lemma get_centre_ok:
  assumes ne: "ms \<noteq> []" and sub: "set ms \<subseteq> {0..<length coords}"
    and sh: "shape seps = (length coords, length coords)"
  shows "\<exists>c. get_centre lib ms coords seps = Inr c"
proof -
  have la: "list_all (\<lambda>j. j < length coords) ms" using sub by (auto simp: list_all_iff)
  have s: "\<exists>a. subset_seps seps ms = Inr a" using la sh by (simp add: subset_seps_shape)
  have hl: "hd ms \<in> set ms" "last ms \<in> set ms" using ne by simp_all
  have lt: "i < length coords" if "i \<in> set ms" for i using that sub by auto
  have e: "take_coords coords [hd ms, last ms] = Inr [coords ! hd ms, coords ! last ms]"
    using lt [OF hl(1)] lt [OF hl(2)] by (simp add: take_coords_def)
  have m: "take_coords coords ms = Inr (map (\<lambda>i. coords ! i) ms)"
    by (rule take_coords_ok [OF sub])
  let ?centre = "calc_centroid lib [coords ! hd ms, coords ! last ms]"
  let ?dists = "map (separation lib ?centre) (map (\<lambda>i. coords ! i) ms)"
  have "?dists \<noteq> []" using ne by simp
  then obtain k where k: "np_argmax ?dists = Inr k" and kl: "k < length ?dists"
    using np_argmax_bound by blast
  have "ms ! k \<in> set ms" using kl by simp
  then have t: "take_coords coords [hd ms, ms ! k, last ms]
                 = Inr [coords ! hd ms, coords ! (ms ! k), coords ! last ms]"
    using lt [OF hl(1)] lt [OF hl(2)] lt [of "ms ! k"] by (simp add: take_coords_def)
  obtain c where c: "calc_circumcentre lib [coords ! hd ms, coords ! (ms ! k), coords ! last ms] = Inr c"
    using calc_circumcentre_three [of lib "coords ! hd ms" "coords ! (ms ! k)" "coords ! last ms"]
    by auto
  from s obtain a where a: "subset_seps seps ms = Inr a" by blast
  show ?thesis
    unfolding get_centre_def a using ne e m k t c by (simp add: Let_def del: np_argmax.simps)
qed

lemma take_coords_Inr: "take_coords xs idx = Inr ys \<Longrightarrow> ys = map (\<lambda>i. xs ! i) idx"
  by (simp add: take_coords_def split: if_splits)

lemma get_centre_InrD:
  assumes "get_centre lib ms coords seps = Inr centre"
  shows "ms \<noteq> []" and "take_coords coords ms = Inr (map (\<lambda>i. coords ! i) ms)"
proof -
  show "ms \<noteq> []"
    using assms by (auto simp: get_centre_def split: sum.splits if_splits)
  obtain cm where "take_coords coords ms = Inr cm"
    using assms by (auto simp: get_centre_def Let_def split: sum.splits if_splits)
  then show "take_coords coords ms = Inr (map (\<lambda>i. coords ! i) ms)"
    using take_coords_Inr by blast
qed

lemma np_max_ok: "xs \<noteq> [] \<Longrightarrow> \<exists>d. np_max xs = Inr d"
  by (cases xs) simp_all

lemma accept_fields:
  "assigned (accept c ms p d st) = assigned st @ ms"
  "loop_members (accept c ms p d st) = loop_members st"
  "cluster_info (accept c ms p d st) =
     AList.update c
       \<lparr>members = ms, centroid = Scalar p,
        int_time = beam_fit (d * 60) fwhm_default nu_default powi (- 2) / real (length ms)\<rparr>
       (cluster_info st)"
  by (simp_all add: accept_def Let_def)

lemma cluster_step_skip:
  assumes "map_of ac c = Some ms" and "set ms \<inter> set (assigned st) \<noteq> {}"
  shows "cluster_step lib coords ac seps c st = Inr (st\<lparr>loop_members := Some ms\<rparr>)"
  using assms by (simp add: cluster_step_def Let_def)

lemma cluster_step_nan:
  assumes "map_of ac c = Some ms" and "set ms \<inter> set (assigned st) = {}"
    and "get_centre lib ms coords seps = Inr None"
  shows "cluster_step lib coords ac seps c st = Inr (st\<lparr>loop_members := Some ms\<rparr>)"
  using assms get_centre_InrD(2) [OF assms(3)] by (simp add: cluster_step_def Let_def)

lemma cluster_step_reject:
  assumes "map_of ac c = Some ms" and "set ms \<inter> set (assigned st) = {}"
    and "get_centre lib ms coords seps = Inr (Some p)"
    and "np_max (map (separation lib p) (map (\<lambda>i. coords ! i) ms)) = Inr d"
    and "\<not> d < get_rad (real (length ms) powr (- 0.5)) fwhm_default nu_default"
  shows "cluster_step lib coords ac seps c st = Inr (st\<lparr>loop_members := Some ms\<rparr>)"
  using assms get_centre_InrD(2) [OF assms(3)] by (simp add: cluster_step_def Let_def)

lemma cluster_step_accepted:
  assumes "map_of ac c = Some ms" and "set ms \<inter> set (assigned st) = {}"
    and "get_centre lib ms coords seps = Inr (Some p)"
    and "np_max (map (separation lib p) (map (\<lambda>i. coords ! i) ms)) = Inr d"
    and "d < get_rad (real (length ms) powr (- 0.5)) fwhm_default nu_default"
  shows "cluster_step lib coords ac seps c st
           = Inr (accept c ms p d (st\<lparr>loop_members := Some ms\<rparr>))"
  using assms get_centre_InrD(2) [OF assms(3)] by (simp add: cluster_step_def Let_def)

text \<open>
  C3. For every candidate cluster whose members are all unassigned and whose centre
  \<open>get_centre\<close> returns, the step raises nothing and accepts the cluster (appends it to
  \<open>clusters\<close>) if and only if the centre is a coordinate and the maximum member distance
  from it is strictly below \<open>get_rad (num_targets ** -0.5)\<close>. On acceptance the members
  are appended to \<open>assigned\<close> and the record of the cluster holds the members, the centre
  and the multiplier \<open>beam_fit (60 * distance) ** -2 / num_targets\<close>; otherwise
  \<open>assigned\<close> and \<open>cluster_info\<close> are unchanged.
\<close>

theorem accept_iff_within_break_even:
  assumes m: "map_of all_clusters c_num = Some ms"
    and un: "set ms \<inter> set (assigned st) = {}"
    and gc: "get_centre lib ms coords seps = Inr centre"
  shows "\<exists>st'. cluster_step lib coords all_clusters seps c_num st = Inr st'
      \<and> (clusters st' = clusters st @ [c_num]) =
          (\<exists>c d. centre = Some c
             \<and> np_max (map (separation lib c) (map (\<lambda>i. coords ! i) ms)) = Inr d
             \<and> d < get_rad (real (length ms) powr (- 0.5)) fwhm_default nu_default)
      \<and> (\<forall>c d. centre = Some c
             \<and> np_max (map (separation lib c) (map (\<lambda>i. coords ! i) ms)) = Inr d
             \<and> d < get_rad (real (length ms) powr (- 0.5)) fwhm_default nu_default
           \<longrightarrow> assigned st' = assigned st @ ms
             \<and> map_of (cluster_info st') c_num =
                 Some \<lparr>members = ms, centroid = Scalar c,
                       int_time = beam_fit (d * 60) fwhm_default nu_default powi (- 2)
                                  / real (length ms)\<rparr>)
      \<and> (clusters st' \<noteq> clusters st @ [c_num]
           \<longrightarrow> assigned st' = assigned st \<and> cluster_info st' = cluster_info st)"
proof -
  let ?cm = "map (\<lambda>i. coords ! i) ms"
  let ?be = "get_rad (real (length ms) powr (- 0.5)) fwhm_default nu_default"
  let ?st = "st\<lparr>loop_members := Some ms\<rparr>"
  have ne: "ms \<noteq> []" and tc: "take_coords coords ms = Inr ?cm"
    using get_centre_InrD [OF gc] by simp_all
  show ?thesis
  proof (cases centre)
    case None
    then have "cluster_step lib coords all_clusters seps c_num st = Inr ?st"
      using m un gc tc by (simp add: cluster_step_def Let_def)
    then show ?thesis using None by simp
  next
    case (Some c)
    obtain d where d: "np_max (map (separation lib c) ?cm) = Inr d"
      using np_max_ok [of "map (separation lib c) ?cm"] ne by auto
    show ?thesis
    proof (cases "d < ?be")
      case True
      then have "cluster_step lib coords all_clusters seps c_num st = Inr (accept c_num ms c d ?st)"
        using m un gc tc Some d by (simp add: cluster_step_def Let_def)
      then show ?thesis
        using Some d True by (simp add: accept_def Let_def update_conv')
    next
      case False
      then have "cluster_step lib coords all_clusters seps c_num st = Inr ?st"
        using m un gc tc Some d by (simp add: cluster_step_def Let_def)
      then show ?thesis using Some d False by simp
    qed
  qed
qed

subsection \<open>The two loops\<close>

lemma cluster_step_cases:
  assumes m: "map_of ac c = Some ms" and g: "good_entry (length coords) ms"
    and sh: "shape seps = (length coords, length coords)"
  shows "\<exists>st'. cluster_step lib coords ac seps c st = Inr st' \<and> loop_members st' = Some ms
      \<and> ((assigned st' = assigned st \<and> cluster_info st' = cluster_info st)
         \<or> (set ms \<inter> set (assigned st) = {} \<and> assigned st' = assigned st @ ms
             \<and> (\<exists>r. members r = ms \<and> cluster_info st' = AList.update c r (cluster_info st))))"
proof -
  let ?cm = "map (\<lambda>i. coords ! i) ms"
  let ?st = "st\<lparr>loop_members := Some ms\<rparr>"
  from g have ne: "ms \<noteq> []" and sub: "set ms \<subseteq> {0..<length coords}"
    by (simp_all add: good_entry_def)
  obtain centre where gc: "get_centre lib ms coords seps = Inr centre"
    using get_centre_ok [OF ne sub sh] by blast
  have tc: "take_coords coords ms = Inr ?cm" by (rule take_coords_ok [OF sub])
  show ?thesis
  proof (cases "set ms \<inter> set (assigned st) = {}")
    case False
    then have "cluster_step lib coords ac seps c st = Inr ?st"
      using m by (simp add: cluster_step_def Let_def)
    then show ?thesis by simp
  next
    case True
    show ?thesis
    proof (cases centre)
      case None
      then have "cluster_step lib coords ac seps c st = Inr ?st"
        using m True gc tc by (simp add: cluster_step_def Let_def)
      then show ?thesis by simp
    next
      case (Some p)
      obtain d where d: "np_max (map (separation lib p) ?cm) = Inr d"
        using np_max_ok [of "map (separation lib p) ?cm"] ne by auto
      show ?thesis
      proof (cases "d < get_rad (real (length ms) powr (- 0.5)) fwhm_default nu_default")
        case T: True
        then have step: "cluster_step lib coords ac seps c st = Inr (accept c ms p d ?st)"
          using m True gc tc Some d by (simp add: cluster_step_def Let_def)
        let ?r = "\<lparr>members = ms, centroid = Scalar p,
                   int_time = beam_fit (d * 60) fwhm_default nu_default powi (- 2)
                              / real (length ms)\<rparr>"
        have "members ?r = ms"
          and "cluster_info (accept c ms p d ?st) = AList.update c ?r (cluster_info st)"
          and "assigned (accept c ms p d ?st) = assigned st @ ms"
          and "loop_members (accept c ms p d ?st) = Some ms"
          by (simp_all add: accept_def Let_def)
        with step True show ?thesis by blast
      next
        case F: False
        then have "cluster_step lib coords ac seps c st = Inr ?st"
          using m True gc tc Some d by (simp add: cluster_step_def Let_def)
        then show ?thesis by simp
      qed
    qed
  qed
qed

lemma select_loop_inv:
  assumes "distinct cs"
    and "\<forall>c\<in>set cs. \<exists>ms. map_of ac c = Some ms \<and> good_entry (length coords) ms"
    and sh: "shape seps = (length coords, length coords)"
    and "selected_ok (length coords) st"
    and "fst ` set (cluster_info st) \<inter> set cs = {}"
  shows "\<exists>st'. select_loop lib coords ac seps cs st = Inr st' \<and> selected_ok (length coords) st'
        \<and> fst ` set (cluster_info st') \<subseteq> fst ` set (cluster_info st) \<union> set cs
        \<and> (cs \<noteq> [] \<longrightarrow> (\<exists>ms. loop_members st' = Some ms \<and> set ms \<subseteq> {0..<length coords}))
        \<and> (cs = [] \<longrightarrow> loop_members st' = loop_members st)"
  using assms(1,2,4,5)
proof (induction cs arbitrary: st)
  case Nil
  then show ?case by simp
next
  case (Cons c cs)
  from Cons.prems obtain ms where m: "map_of ac c = Some ms" and g: "good_entry (length coords) ms"
    by auto
  from cluster_step_cases [OF m g sh, of lib st] obtain st1 where
    step: "cluster_step lib coords ac seps c st = Inr st1" and lm: "loop_members st1 = Some ms"
    and alt: "(assigned st1 = assigned st \<and> cluster_info st1 = cluster_info st)
         \<or> (set ms \<inter> set (assigned st) = {} \<and> assigned st1 = assigned st @ ms
             \<and> (\<exists>r. members r = ms \<and> cluster_info st1 = AList.update c r (cluster_info st)))"
    by blast
  have fresh: "c \<notin> fst ` set (cluster_info st)" using Cons.prems(4) by auto
  have ok1: "selected_ok (length coords) st1
             \<and> fst ` set (cluster_info st1) \<subseteq> fst ` set (cluster_info st) \<union> {c}"
    using alt
  proof
    assume "assigned st1 = assigned st \<and> cluster_info st1 = cluster_info st"
    then show ?thesis using Cons.prems(3) by (auto simp: selected_ok_def)
  next
    assume acc: "set ms \<inter> set (assigned st) = {} \<and> assigned st1 = assigned st @ ms
             \<and> (\<exists>r. members r = ms \<and> cluster_info st1 = AList.update c r (cluster_info st))"
    then obtain r where r: "members r = ms"
      and ci: "cluster_info st1 = cluster_info st @ [(c, r)]"
      using update_fresh [OF fresh] by auto
    show ?thesis
      using acc r ci g Cons.prems(3) by (auto simp: selected_ok_def good_entry_def)
  qed
  have d: "distinct cs" and cn: "c \<notin> set cs" using Cons.prems(1) by simp_all
  have all: "\<forall>c\<in>set cs. \<exists>ms. map_of ac c = Some ms \<and> good_entry (length coords) ms"
    using Cons.prems(2) by simp
  have disj: "fst ` set (cluster_info st1) \<inter> set cs = {}"
    using ok1 Cons.prems(4) cn by auto
  from Cons.IH [OF d all _ disj] ok1 obtain st' where
    res: "select_loop lib coords ac seps cs st1 = Inr st'"
    and ok': "selected_ok (length coords) st'"
    and keys: "fst ` set (cluster_info st') \<subseteq> fst ` set (cluster_info st1) \<union> set cs"
    and lm1: "cs \<noteq> [] \<longrightarrow> (\<exists>ms. loop_members st' = Some ms \<and> set ms \<subseteq> {0..<length coords})"
    and lm2: "cs = [] \<longrightarrow> loop_members st' = loop_members st1"
    by blast
  have "\<exists>ms. loop_members st' = Some ms \<and> set ms \<subseteq> {0..<length coords}"
    using lm1 lm2 lm g by (cases "cs = []") (auto simp: good_entry_def)
  moreover have "fst ` set (cluster_info st') \<subseteq> fst ` set (cluster_info st) \<union> set (c # cs)"
    using keys ok1 by auto
  ultimately show ?case using step res ok' by simp
qed

lemma singles_loop_result:
  assumes "loop_members st = Some ms" and "set ms \<subseteq> {0..<length coords}"
    and "distinct cs" and "fst ` set (cluster_info st) \<inter> set cs = {}"
  shows "singles_loop coords cs st =
           Inr (st\<lparr>cluster_info := cluster_info st
                     @ map (single_info coords ms) (filter (\<lambda>c. c \<notin> set (assigned st)) cs)\<rparr>)"
  using assms
proof (induction cs arbitrary: st)
  case Nil
  then show ?case by simp
next
  case (Cons c cs)
  have tc: "take_coords coords ms = Inr (map (\<lambda>i. coords ! i) ms)"
    by (rule take_coords_ok [OF Cons.prems(2)])
  have fresh: "c \<notin> fst ` set (cluster_info st)" using Cons.prems(4) by auto
  have d: "distinct cs" and cn: "c \<notin> set cs" using Cons.prems(3) by simp_all
  show ?case
  proof (cases "c \<in> set (assigned st)")
    case True
    have "fst ` set (cluster_info st) \<inter> set cs = {}" using Cons.prems(4) by auto
    from Cons.IH [OF Cons.prems(1,2) d this] True show ?thesis by simp
  next
    case False
    let ?st = "st\<lparr>cluster_info := cluster_info st @ [single_info coords ms c]\<rparr>"
    have step: "singles_loop coords (c # cs) st = singles_loop coords cs ?st"
      using False Cons.prems(1) tc update_fresh [OF fresh] by (simp add: single_info_def)
    have "fst ` set (cluster_info ?st) \<inter> set cs = {}"
      using Cons.prems(4) cn by (auto simp: single_info_def)
    moreover have "loop_members ?st = Some ms" using Cons.prems(1) by simp
    ultimately have "singles_loop coords cs ?st =
           Inr (?st\<lparr>cluster_info := cluster_info ?st
                     @ map (single_info coords ms) (filter (\<lambda>c. c \<notin> set (assigned ?st)) cs)\<rparr>)"
      using Cons.IH [of ?st] Cons.prems(2) d by blast
    with step False show ?thesis by simp
  qed
qed

lemma do_clustering_result:
  assumes dk: "distinct (map fst ac)" and ne: "ac \<noteq> []"
    and ge: "list_all (\<lambda>k. length coords \<le> k) (map fst ac)"
    and good: "list_all (good_entry (length coords)) (map snd ac)"
    and sh: "shape seps = (length coords, length coords)"
  shows "\<exists>st ms. do_clustering lib coords ac seps =
             Inr (cluster_info st
                  @ map (single_info coords ms)
                        (filter (\<lambda>c. c \<notin> set (assigned st)) [0..<length coords]))
          \<and> selected_ok (length coords) st
          \<and> fst ` set (cluster_info st) \<subseteq> fst ` set ac"
proof -
  let ?cs = "rev (sort (map fst ac))"
  have d: "distinct ?cs" using dk by simp
  have setcs: "set ?cs = fst ` set ac" by simp
  have all: "\<forall>c\<in>set ?cs. \<exists>ms. map_of ac c = Some ms \<and> good_entry (length coords) ms"
  proof
    fix c assume "c \<in> set ?cs"
    then have "c \<in> fst ` set ac" by simp
    then obtain ms where ms: "map_of ac c = Some ms"
      by (metis map_of_eq_None_iff not_Some_eq)
    then have "ms \<in> set (map snd ac)" by (force dest: map_of_SomeD)
    with good have "good_entry (length coords) ms" by (auto simp: list_all_iff)
    with ms show "\<exists>ms. map_of ac c = Some ms \<and> good_entry (length coords) ms" by blast
  qed
  have i: "selected_ok (length coords) (init_state coords)"
    by (simp add: selected_ok_def init_state_def)
  have k: "fst ` set (cluster_info (init_state coords)) \<inter> set ?cs = {}"
    by (simp add: init_state_def)
  have "length ?cs = length ac" by simp
  then have cne: "?cs \<noteq> []" using ne by (metis length_0_conv)
  from select_loop_inv [OF d all sh i k, of lib] cne obtain st ms where
    sel: "select_loop lib coords ac seps ?cs (init_state coords) = Inr st"
    and ok: "selected_ok (length coords) st"
    and keys: "fst ` set (cluster_info st) \<subseteq> fst ` set ac"
    and lm: "loop_members st = Some ms" and sub: "set ms \<subseteq> {0..<length coords}"
    by (auto simp: init_state_def)
  have "fst ` set (cluster_info st) \<inter> set [0..<length coords] = {}"
  proof -
    have "length coords \<le> c" if "c \<in> fst ` set (cluster_info st)" for c
    proof -
      from that keys obtain x where "x \<in> set ac" "fst x = c" by auto
      with ge show ?thesis by (auto simp: list_all_iff)
    qed
    then show ?thesis by fastforce
  qed
  from singles_loop_result [OF lm sub _ this]
  have "singles_loop coords [0..<length coords] st =
           Inr (st\<lparr>cluster_info := cluster_info st
                     @ map (single_info coords ms)
                           (filter (\<lambda>c. c \<notin> set (assigned st)) [0..<length coords])\<rparr>)"
    by simp
  with sel ok keys show ?thesis by (auto simp: do_clustering_def)
qed

lemma members_single_info: "members (snd (single_info coords ms c)) = [c]"
  by (simp add: single_info_def)

lemma concat_singles:
  "concat (map ((\<lambda>e. members (snd e)) \<circ> single_info coords ms) cs) = cs"
  by (induction cs) (simp_all add: members_single_info)

lemma do_clustering_members:
  assumes dk: "distinct (map fst ac)" and ne: "ac \<noteq> []"
    and ge: "list_all (\<lambda>k. length coords \<le> k) (map fst ac)"
    and good: "list_all (good_entry (length coords)) (map snd ac)"
    and sh: "shape seps = (length coords, length coords)"
  shows "\<exists>info. do_clustering lib coords ac seps = Inr info
          \<and> distinct (concat (map (\<lambda>e. members (snd e)) info))
          \<and> set (concat (map (\<lambda>e. members (snd e)) info)) = {0..<length coords}"
proof -
  from do_clustering_result [OF assms, of lib] obtain st ms where
    res: "do_clustering lib coords ac seps =
             Inr (cluster_info st
                  @ map (single_info coords ms)
                        (filter (\<lambda>c. c \<notin> set (assigned st)) [0..<length coords]))"
    and ok: "selected_ok (length coords) st" by blast
  let ?rest = "filter (\<lambda>c. c \<notin> set (assigned st)) [0..<length coords]"
  let ?info = "cluster_info st @ map (single_info coords ms) ?rest"
  have c: "concat (map (\<lambda>e. members (snd e)) ?info) = assigned st @ ?rest"
    using ok by (simp add: selected_ok_def concat_singles)
  have "distinct (assigned st @ ?rest)" using ok by (auto simp: selected_ok_def)
  then have 1: "distinct (concat (map (\<lambda>e. members (snd e)) ?info))" by (simp only: c)
  have "set (assigned st @ ?rest) = {0..<length coords}"
    using ok by (auto simp: selected_ok_def)
  then have 2: "set (concat (map (\<lambda>e. members (snd e)) ?info)) = {0..<length coords}"
    by (simp only: c)
  from res 1 2 show ?thesis by blast
qed

lemma distinct_concat_disjoint:
  assumes "distinct (concat xss)" and "i < j" and "j < length xss"
  shows "set (xss ! i) \<inter> set (xss ! j) = {}"
  using assms
proof (induction xss arbitrary: i j)
  case Nil
  then show ?case by simp
next
  case (Cons xs xss)
  show ?case
  proof (cases i)
    case 0
    then obtain j' where j: "j = Suc j'" using Cons.prems(2) by (cases j) auto
    then have "xss ! j' \<in> set xss" using Cons.prems(3) by simp
    then have "set (xss ! j') \<subseteq> set (concat xss)" by auto
    with Cons.prems(1) 0 j show ?thesis by auto
  next
    case (Suc i')
    then obtain j' where j: "j = Suc j'" using Cons.prems(2) by (cases j) auto
    with Suc Cons show ?thesis by simp
  qed
qed

text \<open>
  C4. For every list of at least two targets and every linkage matrix for them, the
  script returns pointing records without error; the member sets of two different
  records are disjoint and the union of all member sets is the set of all target
  indices.
\<close>

theorem pointings_partition_targets:
  assumes v: "valid_linkage (length coords) linked"
    and l: "length labellist = length coords" and n: "2 \<le> length coords"
  shows "\<exists>info. script lib coords labellist linked = Inr info
      \<and> (\<forall>i j. i < j \<and> j < length info
            \<longrightarrow> set (members (snd (info ! i))) \<inter> set (members (snd (info ! j))) = {})
      \<and> (\<Union>e\<in>set info. set (members (snd e))) = {0..<length coords}"
proof -
  let ?n = "length coords"
  have len: "Suc (length linked) = ?n" by (rule valid_linkage_length [OF v])
  from extract_levels_forest [OF v l] obtain cl g where
    ex: "extract_levels linked labellist = Inr cl" and F: "forest ?n [g] (length linked + ?n) cl"
    by blast
  have keys: "map fst cl = [?n..<length linked + ?n]"
    and good: "list_all (good_entry ?n) (map snd cl)" using F by (simp_all add: forest_def)
  have dk: "distinct (map fst cl)" by (simp add: keys)
  have "length (map fst cl) = length linked" by (simp only: keys length_upt add_diff_cancel_right')
  then have ne: "cl \<noteq> []" using len n by auto
  have ge: "list_all (\<lambda>k. ?n \<le> k) (map fst cl)" by (simp add: keys list_all_iff)
  have sh: "shape (calc_separation lib coords) = (?n, ?n)" by (rule shape_calc_separation)
  from do_clustering_members [OF dk ne ge good sh, of lib] obtain info where
    res: "do_clustering lib coords cl (calc_separation lib coords) = Inr info"
    and d: "distinct (concat (map (\<lambda>e. members (snd e)) info))"
    and u: "set (concat (map (\<lambda>e. members (snd e)) info)) = {0..<?n}" by blast
  have s: "script lib coords labellist linked = Inr info"
    using ex res by (simp add: script_linked [OF n])
  have disj: "set (members (snd (info ! i))) \<inter> set (members (snd (info ! j))) = {}"
    if "i < j" "j < length info" for i j
    using distinct_concat_disjoint [OF d that(1)] that by simp
  have "(\<Union>e\<in>set info. set (members (snd e))) = {0..<?n}" using u by simp
  with s disj show ?thesis by blast
qed

theorem pointings_partition_targets_witness:
  "valid_linkage (length two_pairs) two_pairs_linked
   \<and> length two_pairs_labels = length two_pairs \<and> 2 \<le> length two_pairs
   \<and> (\<exists>info. script sphere two_pairs two_pairs_labels two_pairs_linked = Inr info
         \<and> (\<Union>e\<in>set info. set (members (snd e))) = {0..<length two_pairs})"
proof -
  have v: "valid_linkage (length two_pairs) two_pairs_linked"
    by (simp add: valid_linkage_def two_pairs_linked_def two_pairs_def upt_rec)
  have l: "length two_pairs_labels = length two_pairs"
    by (simp add: two_pairs_labels_def two_pairs_def)
  have n: "2 \<le> length two_pairs" by (simp add: two_pairs_def)
  show ?thesis
    using v l n pointings_partition_targets [OF v l n, of sphere] by blast
qed

section \<open>The examples\<close>

subsection \<open>Break-even radii and multipliers\<close>

lemma break_even_2: "get_rad (real 2 powr (- 0.5)) fwhm_default nu_default = sqrt (1 / 2) * (161 / 2200)"
proof -
  have "ln (2 powr (- 0.5 :: real)) = - 0.5 * ln 2" by (simp add: ln_powr)
  then have "- ln (2 powr (- 0.5 :: real)) / ln 2 = 1 / 2" by simp
  then show ?thesis by (simp add: get_rad_def fwhm_default_def nu_default_def)
qed

lemma break_even_4: "get_rad (real 4 powr (- 0.5)) fwhm_default nu_default = 161 / 2200"
proof -
  have "ln (4::real) = 2 * ln 2"
    using ln_realpow [of 2 2] by simp
  then have "ln (4 powr (- 0.5 :: real)) = - ln 2" by (simp add: ln_powr)
  then have "- ln (4 powr (- 0.5 :: real)) / ln 2 = 1" by simp
  then show ?thesis by (simp add: get_rad_def fwhm_default_def nu_default_def)
qed

lemma sqrt_half_bounds: "1 / 2 \<le> sqrt (1 / 2)" "sqrt (1 / 2) \<le> 1"
proof -
  have "sqrt (1 / 4) \<le> sqrt (1 / 2)" by simp
  moreover have "sqrt (1 / 4) = 1 / 2" by (rule real_sqrt_unique) (simp_all add: power2_eq_square)
  ultimately show "1 / 2 \<le> sqrt (1 / 2)" by simp
  have "sqrt (1 / 2) \<le> sqrt 1" by simp
  then show "sqrt (1 / 2) \<le> 1" by simp
qed

lemma break_even_2_small: "get_rad (real 2 powr (- 0.5)) fwhm_default nu_default \<le> 161 / 2200"
proof -
  have "sqrt (1 / 2) * (161 / 2200) \<le> 1 * (161 / 2200)"
    by (rule mult_right_mono [OF sqrt_half_bounds(2)]) simp
  then show ?thesis by (simp only: break_even_2 mult_1)
qed

lemma break_even_2_large: "0.005 < get_rad (real 2 powr (- 0.5)) fwhm_default nu_default"
proof -
  have "1 / 2 * (161 / 2200) \<le> sqrt (1 / 2) * (161 / 2200)"
    by (rule mult_right_mono [OF sqrt_half_bounds(1)]) simp
  then show ?thesis by (simp only: break_even_2) simp
qed

lemma beam_fit_powi:
  assumes "0 < fwhm"
  shows "beam_fit x fwhm nu powi (- 2) = 2 powr (8 * (x * nu / fwhm)\<^sup>2)"
proof -
  let ?y = "(x * nu / fwhm)\<^sup>2"
  have "beam_fit x fwhm nu powi (- 2) = inverse ((exp (- 4 * ln 2 * ?y))\<^sup>2)"
    by (simp add: beam_fit_def power_int_minus)
  also have "(exp (- 4 * ln 2 * ?y))\<^sup>2 = exp (2 * (- 4 * ln 2 * ?y))"
    by (simp only: exp_double)
  also have "inverse (exp (2 * (- 4 * ln 2 * ?y))) = exp (8 * ?y * ln 2)"
    by (simp add: exp_minus [symmetric])
  finally show ?thesis by (simp add: powr_def)
qed

lemma pair_time_bounds:
  "1 / 2 < beam_fit (0.005 * 60) fwhm_default nu_default powi (- 2) / 2"
  "beam_fit (0.005 * 60) fwhm_default nu_default powi (- 2) / 2 < 1"
proof -
  let ?e = "8 * (0.005 * 60 * nu_default / fwhm_default)\<^sup>2"
  have f: "0 < fwhm_default" by (simp add: fwhm_default_def)
  have e: "0 < ?e" "?e < 1"
    by (simp_all add: fwhm_default_def nu_default_def power2_eq_square)
  have "(2::real) powr 0 < 2 powr ?e" using e(1) by (simp only: powr_less_cancel_iff)
  then have 1: "1 < (2::real) powr ?e" by simp
  have "(2::real) powr ?e < 2 powr 1" using e(2) by (simp only: powr_less_cancel_iff)
  then have 2: "(2::real) powr ?e < 2" by simp
  show "1 / 2 < beam_fit (0.005 * 60) fwhm_default nu_default powi (- 2) / 2"
    using 1 by (simp only: beam_fit_powi [OF f])
  show "beam_fit (0.005 * 60) fwhm_default nu_default powi (- 2) / 2 < 1"
    using 2 by (simp only: beam_fit_powi [OF f])
qed

text \<open>
  The multiplier of an accepted cluster is below 1: the cluster is accepted only where
  the beam is above \<open>num_targets ** -0.5\<close>.
\<close>

lemma accepted_multiplier_below_one:
  assumes n: "1 \<le> n" and d0: "0 \<le> d"
    and acc: "d < get_rad (real n powr (- 0.5)) fwhm_default nu_default"
  shows "beam_fit (d * 60) fwhm_default nu_default powi (- 2) / real n < 1"
proof -
  let ?f = fwhm_default and ?nu = nu_default
  let ?L = "ln (real n) / (2 * ln 2)"
  have f: "0 < ?f" and nu: "0 < ?nu" by (simp_all add: fwhm_default_def nu_default_def)
  have l2: "0 < ln (2::real)" by simp
  have rn: "1 \<le> real n" using n by simp
  have L0: "0 \<le> ?L" using rn l2 by simp
  have "ln (real n powr (- 0.5)) = - 0.5 * ln (real n)" using rn by (simp add: ln_powr)
  then have arg: "- ln (real n powr (- 0.5)) / ln 2 = ?L" by simp
  have be: "get_rad (real n powr (- 0.5)) ?f ?nu * 60 * ?nu / ?f = 0.5 * sqrt ?L"
    unfolding get_rad_def Let_def arg using f nu by simp
  let ?x = "d * 60 * ?nu / ?f"
  have x0: "0 \<le> ?x" using d0 f nu by simp
  have "?x < get_rad (real n powr (- 0.5)) ?f ?nu * 60 * ?nu / ?f"
    using acc f nu by (simp add: divide_strict_right_mono mult_strict_right_mono)
  then have xlt: "?x < 0.5 * sqrt ?L" by (simp only: be)
  have "?x\<^sup>2 < (0.5 * sqrt ?L)\<^sup>2"
    using xlt x0 by (simp add: power_strict_mono del: power_mono_iff)
  also have "(0.5 * sqrt ?L)\<^sup>2 = ?L / 4" using L0 by (simp add: power_divide)
  finally have "8 * ?x\<^sup>2 * ln 2 < ln (real n)" using l2 by (simp add: field_simps)
  then have "exp (8 * ?x\<^sup>2 * ln 2) < real n" using rn by (metis exp_less_cancel_iff exp_ln less_le_trans zero_less_one)
  then have "2 powr (8 * ?x\<^sup>2) < real n" by (simp add: powr_def mult.commute)
  then show ?thesis using rn by (simp add: beam_fit_powi [OF f])
qed

subsection \<open>Two targets far apart\<close>

lemma far_levels: "extract_levels far_pair_linked [''t0'', ''t1''] = Inr [(2, [0, 1])]"
  by (simp add: extract_levels_def far_pair_linked_def pull_glob_def)

lemma far_centre:
  "get_centre sphere [0, 1] far_pair (calc_separation sphere far_pair)
     = Inr (Some (Cartesian (vadd (sphere_cartesian (Spherical 0 0)) (sphere_cartesian (Spherical 5 0)))))"
  using get_centre_pair [of 0 far_pair 1 "calc_separation sphere far_pair" sphere]
  by (simp add: shape_calc_separation far_pair_def calc_centroid_def sphere_def vsum_pair
        del: sphere_cartesian.simps)

lemma far_dist:
  "np_max (map (separation sphere (Cartesian (vadd (sphere_cartesian (Spherical 0 0)) (sphere_cartesian (Spherical 5 0)))))
       (map (\<lambda>i. far_pair ! i) [0, 1])) = Inr (5 / 2)"
  by (simp add: sphere_def sep_centroid_equator far_pair_def del: sphere_cartesian.simps)

lemma far_step:
  "cluster_step sphere far_pair [(2, [0, 1])] (calc_separation sphere far_pair) 2 (init_state far_pair)
     = Inr ((init_state far_pair)\<lparr>loop_members := Some [0, 1]\<rparr>)"
proof (rule cluster_step_reject [OF _ _ far_centre far_dist])
  show "map_of [(2::nat, [0, 1::nat])] 2 = Some [0, 1]" by simp
  show "set [0, 1] \<inter> set (assigned (init_state far_pair)) = {}" by (simp add: init_state_def)
  show "\<not> 5 / 2 < get_rad (real (length [0, 1::nat]) powr (- 0.5)) fwhm_default nu_default"
    using break_even_2_small by simp
qed

text \<open>
  C1. The claim: every target left unassigned becomes its own record, with multiplier 1
  and its own position as centre. The code takes \<open>coords[members]\<close> as the centre, where
  \<open>members\<close> is still the member array of the last candidate cluster of the first loop.
  For two targets five degrees apart the one candidate cluster is rejected and both
  records get the array of both positions as centre, not the position of their target.
\<close>

theorem singleton_centre_is_stale:
  "script sphere far_pair [''t0'', ''t1''] far_pair_linked =
     Inr [(0, \<lparr>members = [0], centroid = Array [Spherical 0 0, Spherical 5 0], int_time = 1\<rparr>),
          (1, \<lparr>members = [1], centroid = Array [Spherical 0 0, Spherical 5 0], int_time = 1\<rparr>)]"
proof -
  let ?seps = "calc_separation sphere far_pair"
  let ?st = "(init_state far_pair)\<lparr>loop_members := Some [0, 1]\<rparr>"
  have keys: "rev (sort (map fst [(2::nat, [0, 1::nat])])) = [2]" by simp
  have sel: "select_loop sphere far_pair [(2, [0, 1])] ?seps [2] (init_state far_pair) = Inr ?st"
    by (simp only: select_loop.simps far_step sum.case)
  have sing: "singles_loop far_pair [0..<length far_pair] ?st =
      Inr (?st\<lparr>cluster_info := cluster_info ?st
              @ map (single_info far_pair [0, 1])
                    (filter (\<lambda>c. c \<notin> set (assigned ?st)) [0..<length far_pair])\<rparr>)"
    by (rule singles_loop_result) (simp_all add: far_pair_def init_state_def)
  have "do_clustering sphere far_pair [(2, [0, 1])] ?seps =
      Inr (cluster_info ?st
              @ map (single_info far_pair [0, 1])
                    (filter (\<lambda>c. c \<notin> set (assigned ?st)) [0..<length far_pair]))"
    by (simp only: do_clustering_def keys sel sing sum.case) simp
  also have "\<dots> = Inr [(0, \<lparr>members = [0], centroid = Array [Spherical 0 0, Spherical 5 0], int_time = 1\<rparr>),
          (1, \<lparr>members = [1], centroid = Array [Spherical 0 0, Spherical 5 0], int_time = 1\<rparr>)]"
    by (simp add: init_state_def far_pair_def single_info_def upt_rec)
  finally have dc: "do_clustering sphere far_pair [(2, [0, 1])] ?seps =
      Inr [(0, \<lparr>members = [0], centroid = Array [Spherical 0 0, Spherical 5 0], int_time = 1\<rparr>),
          (1, \<lparr>members = [1], centroid = Array [Spherical 0 0, Spherical 5 0], int_time = 1\<rparr>)]" .
  have two: "2 \<le> length far_pair" by (simp add: far_pair_def)
  show ?thesis
    by (simp only: script_linked [OF two] far_levels sum.case dc)
qed

subsection \<open>Two pairs\<close>

lemma two_pairs_nth:
  "two_pairs ! 0 = Spherical 0 0" "two_pairs ! Suc 0 = Spherical 0.01 0"
  "two_pairs ! 2 = Spherical 5 0" "two_pairs ! 3 = Spherical 5.01 0"
  "length two_pairs = 4"
  by (simp_all add: two_pairs_def)

lemma two_levels:
  "extract_levels two_pairs_linked two_pairs_labels = Inr [(4, [0, 1]), (5, [2, 3]), (6, [0, 1, 2, 3])]"
  by (simp add: extract_levels_def two_pairs_linked_def two_pairs_labels_def pull_glob_def)

lemma root_centre:
  "get_centre sphere [0, 1, 2, 3] two_pairs (calc_separation sphere two_pairs)
     = Inr (Some (calc_centroid sphere [Spherical 0 0, Spherical 5.01 0]))"
proof -
  let ?c = "Cartesian (vadd (sphere_cartesian (Spherical 0 0)) (sphere_cartesian (Spherical 5.01 0)))"
  have cen: "calc_centroid sphere [Spherical 0 0, Spherical 5.01 0] = ?c"
    by (simp add: calc_centroid_def sphere_def vsum_pair del: sphere_cartesian.simps)
  have sub: "\<exists>a. subset_seps (calc_separation sphere two_pairs) [0, 1, 2, 3] = Inr a"
    by (simp add: subset_seps_shape shape_calc_separation two_pairs_nth)
  have ends: "take_coords two_pairs [hd [0, 1, 2, 3], last [0, 1, 2, 3]]
                = Inr [Spherical 0 0, Spherical 5.01 0]"
    by (simp add: take_coords_def two_pairs_nth)
  have all: "take_coords two_pairs [0, 1, 2, 3] = Inr two_pairs"
    by (simp add: take_coords_def two_pairs_def)
  have dists: "map (separation sphere ?c) two_pairs = [501 / 200, 499 / 200, 499 / 200, 501 / 200]"
    by (simp add: sphere_def two_pairs_def sep_centroid_equator del: sphere_cartesian.simps)
  have arg: "np_argmax [501 / 200, 499 / 200, 499 / 200, 501 / 200 :: real] = Inr 0"
    by simp
  from sub obtain a where a: "subset_seps (calc_separation sphere two_pairs) [0, 1, 2, 3] = Inr a"
    by blast
  show ?thesis
    unfolding get_centre_def a
    by (simp only: ends all cen dists arg sum.case Let_def) simp
qed

lemma left_centre:
  "get_centre sphere [0, 1] two_pairs (calc_separation sphere two_pairs)
     = Inr (Some (calc_centroid sphere [Spherical 0 0, Spherical 0.01 0]))"
  using get_centre_pair [of 0 two_pairs 1 "calc_separation sphere two_pairs" sphere]
  by (simp add: shape_calc_separation two_pairs_nth)

lemma right_centre:
  "get_centre sphere [2, 3] two_pairs (calc_separation sphere two_pairs)
     = Inr (Some (calc_centroid sphere [Spherical 5 0, Spherical 5.01 0]))"
  using get_centre_pair [of 2 two_pairs 3 "calc_separation sphere two_pairs" sphere]
  by (simp add: shape_calc_separation two_pairs_nth)

lemma root_dist:
  "np_max (map (separation sphere (calc_centroid sphere [Spherical 0 0, Spherical 5.01 0]))
             (map (\<lambda>i. two_pairs ! i) [0, 1, 2, 3])) = Inr (501 / 200)"
  by (simp add: calc_centroid_def sphere_def vsum_pair two_pairs_nth sep_centroid_equator
        del: sphere_cartesian.simps)

lemma left_dist:
  "np_max (map (separation sphere (calc_centroid sphere [Spherical 0 0, Spherical 0.01 0]))
             (map (\<lambda>i. two_pairs ! i) [0, 1])) = Inr 0.005"
  by (simp add: calc_centroid_def sphere_def vsum_pair two_pairs_nth sep_centroid_equator
        del: sphere_cartesian.simps)

lemma right_dist:
  "np_max (map (separation sphere (calc_centroid sphere [Spherical 5 0, Spherical 5.01 0]))
             (map (\<lambda>i. two_pairs ! i) [2, 3])) = Inr 0.005"
  by (simp add: calc_centroid_def sphere_def vsum_pair two_pairs_nth sep_centroid_equator
        del: sphere_cartesian.simps)

lemma two_pairs_result:
  "script sphere two_pairs two_pairs_labels two_pairs_linked =
     Inr [(5, \<lparr>members = [2, 3],
               centroid = Scalar (calc_centroid sphere [Spherical 5 0, Spherical 5.01 0]),
               int_time = beam_fit (0.005 * 60) fwhm_default nu_default powi (- 2) / 2\<rparr>),
          (4, \<lparr>members = [0, 1],
               centroid = Scalar (calc_centroid sphere [Spherical 0 0, Spherical 0.01 0]),
               int_time = beam_fit (0.005 * 60) fwhm_default nu_default powi (- 2) / 2\<rparr>)]"
proof -
  let ?ac = "[(4, [0, 1]), (5, [2, 3]), (6, [0, 1, 2, 3])] :: clusters"
  let ?seps = "calc_separation sphere two_pairs"
  have keys: "rev (sort (map fst ?ac)) = [6, 5, 4]" by simp
  have s6: "cluster_step sphere two_pairs ?ac ?seps 6 (init_state two_pairs) = Inr after_root"
    unfolding after_root_def
  proof (rule cluster_step_reject [OF _ _ root_centre root_dist])
    show "map_of ?ac 6 = Some [0, 1, 2, 3]" by simp
    show "set [0, 1, 2, 3] \<inter> set (assigned (init_state two_pairs)) = {}"
      by (simp add: init_state_def)
    show "\<not> 501 / 200 < get_rad (real (length [0, 1, 2, 3::nat]) powr (- 0.5)) fwhm_default nu_default"
      using break_even_4 by simp
  qed
  have s5: "cluster_step sphere two_pairs ?ac ?seps 5 after_root = Inr after_right"
    unfolding after_right_def
  proof (rule cluster_step_accepted [OF _ _ right_centre right_dist])
    show "map_of ?ac 5 = Some [2, 3]" by simp
    show "set [2, 3] \<inter> set (assigned after_root) = {}"
      by (simp add: after_root_def init_state_def)
    show "0.005 < get_rad (real (length [2, 3::nat]) powr (- 0.5)) fwhm_default nu_default"
      using break_even_2_large by simp
  qed
  have s4: "cluster_step sphere two_pairs ?ac ?seps 4 after_right = Inr after_left"
    unfolding after_left_def
  proof (rule cluster_step_accepted [OF _ _ left_centre left_dist])
    show "map_of ?ac 4 = Some [0, 1]" by simp
    show "set [0, 1] \<inter> set (assigned after_right) = {}"
      by (simp add: after_right_def after_root_def accept_fields init_state_def)
    show "0.005 < get_rad (real (length [0, 1::nat]) powr (- 0.5)) fwhm_default nu_default"
      using break_even_2_large by simp
  qed
  have sel: "select_loop sphere two_pairs ?ac ?seps [6, 5, 4] (init_state two_pairs) = Inr after_left"
    by (simp only: select_loop.simps s6 s5 s4 sum.case)
  have asg: "assigned after_left = [2, 3, 0, 1]"
    by (simp add: after_left_def after_right_def after_root_def accept_fields init_state_def)
  have info: "cluster_info after_left =
     [(5, \<lparr>members = [2, 3],
               centroid = Scalar (calc_centroid sphere [Spherical 5 0, Spherical 5.01 0]),
               int_time = beam_fit (0.005 * 60) fwhm_default nu_default powi (- 2) / 2\<rparr>),
          (4, \<lparr>members = [0, 1],
               centroid = Scalar (calc_centroid sphere [Spherical 0 0, Spherical 0.01 0]),
               int_time = beam_fit (0.005 * 60) fwhm_default nu_default powi (- 2) / 2\<rparr>)]"
    by (simp add: after_left_def after_right_def after_root_def accept_fields init_state_def)
  have sing: "singles_loop two_pairs [0..<length two_pairs] after_left =
      Inr (after_left\<lparr>cluster_info := cluster_info after_left
              @ map (single_info two_pairs [0, 1])
                    (filter (\<lambda>c. c \<notin> set (assigned after_left)) [0..<length two_pairs])\<rparr>)"
  proof (rule singles_loop_result)
    show "loop_members after_left = Some [0, 1]" by (simp add: after_left_def accept_fields)
    show "set [0, 1] \<subseteq> {0..<length two_pairs}" by (simp add: two_pairs_def)
    show "distinct [0..<length two_pairs]" by simp
    show "fst ` set (cluster_info after_left) \<inter> set [0..<length two_pairs] = {}"
      by (simp add: info two_pairs_def)
  qed
  have none: "filter (\<lambda>c. c \<notin> set (assigned after_left)) [0..<length two_pairs] = []"
    by (simp add: asg two_pairs_def upt_rec)
  have "do_clustering sphere two_pairs ?ac ?seps = Inr (cluster_info after_left)"
    by (simp only: do_clustering_def keys sel sing sum.case none) simp
  moreover have "2 \<le> length two_pairs" by (simp add: two_pairs_def)
  ultimately show ?thesis
    by (simp only: script_linked two_levels sum.case info)
qed

text \<open>
  The step of C3 on the right pair, in the state after the rejection of the root: the
  pair is accepted.
\<close>

theorem accept_iff_within_break_even_witness:
  "map_of [(4, [0, 1]), (5, [2, 3]), (6, [0, 1, 2, 3])] (5::nat) = Some [2, 3::nat]
   \<and> set [2, 3] \<inter> set (assigned after_root) = {}
   \<and> get_centre sphere [2, 3] two_pairs (calc_separation sphere two_pairs)
       = Inr (Some (calc_centroid sphere [Spherical 5 0, Spherical 5.01 0]))
   \<and> (\<exists>st'. cluster_step sphere two_pairs [(4, [0, 1]), (5, [2, 3]), (6, [0, 1, 2, 3])]
                (calc_separation sphere two_pairs) 5 after_root = Inr st'
           \<and> clusters st' = clusters after_root @ [5]
           \<and> assigned st' = assigned after_root @ [2, 3]
           \<and> map_of (cluster_info st') 5 =
                 Some \<lparr>members = [2, 3],
                       centroid = Scalar (calc_centroid sphere [Spherical 5 0, Spherical 5.01 0]),
                       int_time = beam_fit (0.005 * 60) fwhm_default nu_default powi (- 2)
                                  / real (length [2, 3::nat])\<rparr>)"
proof -
  let ?ac = "[(4, [0, 1]), (5, [2, 3]), (6, [0, 1, 2, 3])] :: clusters"
  let ?c = "calc_centroid sphere [Spherical 5 0, Spherical 5.01 0]"
  let ?be = "get_rad (real (length [2, 3::nat]) powr (- 0.5)) fwhm_default nu_default"
  have 1: "map_of ?ac 5 = Some [2, 3]" by simp
  have 2: "set [2, 3] \<inter> set (assigned after_root) = {}"
    by (simp add: after_root_def init_state_def)
  have be: "0.005 < ?be" using break_even_2_large by simp
  from accept_iff_within_break_even [OF 1 2 right_centre] obtain st' where
    step: "cluster_step sphere two_pairs ?ac (calc_separation sphere two_pairs) 5 after_root = Inr st'"
    and iff: "(clusters st' = clusters after_root @ [5]) =
          (\<exists>c d. Some ?c = Some c
             \<and> np_max (map (separation sphere c) (map (\<lambda>i. two_pairs ! i) [2, 3])) = Inr d
             \<and> d < ?be)"
    and acc: "\<forall>c d. Some ?c = Some c
             \<and> np_max (map (separation sphere c) (map (\<lambda>i. two_pairs ! i) [2, 3])) = Inr d
             \<and> d < ?be
           \<longrightarrow> assigned st' = assigned after_root @ [2, 3]
             \<and> map_of (cluster_info st') 5 =
                 Some \<lparr>members = [2, 3], centroid = Scalar c,
                       int_time = beam_fit (d * 60) fwhm_default nu_default powi (- 2)
                                  / real (length [2, 3::nat])\<rparr>"
    by blast
  have ex: "Some ?c = Some ?c
             \<and> np_max (map (separation sphere ?c) (map (\<lambda>i. two_pairs ! i) [2, 3])) = Inr 0.005
             \<and> 0.005 < ?be"
    using right_dist be by simp
  from iff ex have a: "clusters st' = clusters after_root @ [5]" by blast
  from acc ex have b: "assigned st' = assigned after_root @ [2, 3]
             \<and> map_of (cluster_info st') 5 =
                 Some \<lparr>members = [2, 3], centroid = Scalar ?c,
                       int_time = beam_fit (0.005 * 60) fwhm_default nu_default powi (- 2)
                                  / real (length [2, 3::nat])\<rparr>"
    by blast
  from 1 2 right_centre step a b show ?thesis by blast
qed

text \<open>
  C2, as the claim states it, fails: the multiplier of an accepted pair is not greater
  than 1. For the two pairs the script returns the two records below, and their
  multiplier is not above 1.
\<close>

theorem two_pairs_multiplier_below_one:
  "script sphere two_pairs two_pairs_labels two_pairs_linked =
     Inr [(5, \<lparr>members = [2, 3],
               centroid = Scalar (calc_centroid sphere [Spherical 5 0, Spherical 5.01 0]),
               int_time = beam_fit (0.005 * 60) fwhm_default nu_default powi (- 2) / 2\<rparr>),
          (4, \<lparr>members = [0, 1],
               centroid = Scalar (calc_centroid sphere [Spherical 0 0, Spherical 0.01 0]),
               int_time = beam_fit (0.005 * 60) fwhm_default nu_default powi (- 2) / 2\<rparr>)]
   \<and> \<not> 1 < beam_fit (0.005 * 60) fwhm_default nu_default powi (- 2) / 2"
  using two_pairs_result pair_time_bounds(2) by simp

text \<open>
  C2, amended. For the two pairs the script returns exactly two records, one per pair
  and none for all four targets; the centre of each is the midpoint of its pair, and the
  multiplier of each lies strictly between 1/2 and 1.
\<close>

theorem two_pairs_two_pointings:
  "script sphere two_pairs two_pairs_labels two_pairs_linked =
     Inr [(5, \<lparr>members = [2, 3],
               centroid = Scalar (calc_centroid sphere [Spherical 5 0, Spherical 5.01 0]),
               int_time = beam_fit (0.005 * 60) fwhm_default nu_default powi (- 2) / 2\<rparr>),
          (4, \<lparr>members = [0, 1],
               centroid = Scalar (calc_centroid sphere [Spherical 0 0, Spherical 0.01 0]),
               int_time = beam_fit (0.005 * 60) fwhm_default nu_default powi (- 2) / 2\<rparr>)]
   \<and> direction (calc_centroid sphere [Spherical 5 0, Spherical 5.01 0])
       = direction (Spherical 5.005 0)
   \<and> direction (calc_centroid sphere [Spherical 0 0, Spherical 0.01 0])
       = direction (Spherical 0.005 0)
   \<and> 1 / 2 < beam_fit (0.005 * 60) fwhm_default nu_default powi (- 2) / 2
   \<and> beam_fit (0.005 * 60) fwhm_default nu_default powi (- 2) / 2 < 1"
proof -
  have r: "direction (calc_centroid sphere [Spherical 5 0, Spherical 5.01 0])
             = direction (Spherical 5.005 0)"
    using direction_centroid_equator [of 5 "5.01"]
    by (simp add: calc_centroid_def sphere_def vsum_pair direction_equator
          del: sphere_cartesian.simps direction.simps)
  have l: "direction (calc_centroid sphere [Spherical 0 0, Spherical 0.01 0])
             = direction (Spherical 0.005 0)"
    using direction_centroid_equator [of 0 "0.01"]
    by (simp add: calc_centroid_def sphere_def vsum_pair direction_equator
          del: sphere_cartesian.simps direction.simps)
  show ?thesis
    by (intro conjI two_pairs_result r l pair_time_bounds)
qed

subsection \<open>Fewer than two targets\<close>



subsection \<open>A position listed twice\<close>

text \<open>
  The circumcentre is NaN exactly when the cross product \<open>AB\<close> is the zero vector; it is
  when the first and the last member of the cluster are the same position.
\<close>

lemma calc_circumcentre_None_iff:
  "calc_circumcentre lib [p0, p1, p2] = Inr None
     \<longleftrightarrow> cross (vsub (cartesian lib p1) (cartesian lib p0))
                (vsub (cartesian lib p2) (cartesian lib p1)) = (0, 0, 0)"
  by (simp add: Let_def vnorm_zero_iff)

lemma calc_circumcentre_nan:
  assumes "cartesian lib p2 = cartesian lib p0"
  shows "calc_circumcentre lib [p0, p1, p2] = Inr None"
proof -
  obtain x0 y0 z0 where c0: "cartesian lib p0 = (x0, y0, z0)" by (cases "cartesian lib p0")
  obtain x1 y1 z1 where c1: "cartesian lib p1 = (x1, y1, z1)" by (cases "cartesian lib p1")
  have "cross (vsub (cartesian lib p1) (cartesian lib p0)) (vsub (cartesian lib p2) (cartesian lib p1))
          = (0, 0, 0)"
    by (simp add: assms c0 c1 algebra_simps)
  then show ?thesis by (simp add: Let_def vnorm_def)
qed

lemma repeated_nth:
  "repeated_target ! 0 = Spherical 0 0" "repeated_target ! Suc 0 = Spherical 0.01 0"
  "repeated_target ! 2 = Spherical 0 0" "length repeated_target = 3"
  by (simp_all add: repeated_target_def)

lemma repeated_root_centre:
  "get_centre sphere [0, 1, 2] repeated_target (calc_separation sphere repeated_target) = Inr None"
proof -
  let ?c = "Cartesian (vadd (sphere_cartesian (Spherical 0 0)) (sphere_cartesian (Spherical 0 0)))"
  have cen: "calc_centroid sphere [Spherical 0 0, Spherical 0 0] = ?c"
    by (simp add: calc_centroid_def sphere_def vsum_pair del: sphere_cartesian.simps)
  have sub: "\<exists>a. subset_seps (calc_separation sphere repeated_target) [0, 1, 2] = Inr a"
    by (simp add: subset_seps_shape shape_calc_separation repeated_nth)
  have ends: "take_coords repeated_target [hd [0, 1, 2], last [0, 1, 2]]
                = Inr [Spherical 0 0, Spherical 0 0]"
    by (simp add: take_coords_def repeated_nth)
  have all: "take_coords repeated_target [0, 1, 2] = Inr repeated_target"
    by (simp add: take_coords_def repeated_target_def)
  have dists: "map (separation sphere ?c) repeated_target = [0, 1 / 100, 0]"
    by (simp add: sphere_def repeated_target_def sep_centroid_equator del: sphere_cartesian.simps)
  have arg: "np_argmax [0, 1 / 100, 0 :: real] = Inr 1"
    by simp
  have three: "take_coords repeated_target [hd [0, 1, 2], [0, 1, 2] ! 1, last [0, 1, 2]]
                = Inr [Spherical 0 0, Spherical 0.01 0, Spherical 0 0]"
    by (simp add: take_coords_def repeated_nth)
  have nan: "calc_circumcentre sphere [Spherical 0 0, Spherical 0.01 0, Spherical 0 0] = Inr None"
    by (rule calc_circumcentre_nan) simp
  from sub obtain a where a: "subset_seps (calc_separation sphere repeated_target) [0, 1, 2] = Inr a"
    by blast
  show ?thesis
    unfolding get_centre_def a
    by (simp only: ends all cen dists arg three nan sum.case Let_def) simp
qed

lemma repeated_pair_centre:
  "get_centre sphere [1, 2] repeated_target (calc_separation sphere repeated_target)
     = Inr (Some (calc_centroid sphere [Spherical 0.01 0, Spherical 0 0]))"
  using get_centre_pair [of 1 repeated_target 2 "calc_separation sphere repeated_target" sphere]
  by (simp add: shape_calc_separation repeated_nth)

lemma repeated_pair_dist:
  "np_max (map (separation sphere (calc_centroid sphere [Spherical 0.01 0, Spherical 0 0]))
             (map (\<lambda>i. repeated_target ! i) [1, 2])) = Inr 0.005"
  by (simp add: calc_centroid_def sphere_def vsum_pair repeated_nth sep_centroid_equator
        del: sphere_cartesian.simps)

text \<open>
  C9, as the claim states it, fails: a zero-length cross product is not detected and
  nothing is reported for the cluster. In \<open>repeated_target\<close> the first and the last
  member of cluster 4 are the same position, the cross product in \<open>calc_circumcentre\<close>
  is zero and the centre is NaN. \<open>do_clustering\<close> returns the pair 3 and the single
  target 0; the returned dict holds nothing about cluster 4.
\<close>

theorem repeated_target_unreported:
  "do_clustering sphere repeated_target repeated_target_clusters
       (calc_separation sphere repeated_target) =
     Inr [(3, \<lparr>members = [1, 2],
               centroid = Scalar (calc_centroid sphere [Spherical 0.01 0, Spherical 0 0]),
               int_time = beam_fit (0.005 * 60) fwhm_default nu_default powi (- 2) / 2\<rparr>),
          (0, \<lparr>members = [0], centroid = Array [Spherical 0.01 0, Spherical 0 0],
               int_time = 1\<rparr>)]"
proof -
  let ?ac = "[(3, [1, 2]), (4, [0, 1, 2])] :: clusters"
  let ?seps = "calc_separation sphere repeated_target"
  have keys: "rev (sort (map fst ?ac)) = [4, 3]" by simp
  have s4: "cluster_step sphere repeated_target ?ac ?seps 4 (init_state repeated_target) = Inr after_nan"
    unfolding after_nan_def
  proof (rule cluster_step_nan [OF _ _ repeated_root_centre])
    show "map_of ?ac 4 = Some [0, 1, 2]" by simp
    show "set [0, 1, 2] \<inter> set (assigned (init_state repeated_target)) = {}"
      by (simp add: init_state_def)
  qed
  have s3: "cluster_step sphere repeated_target ?ac ?seps 3 after_nan = Inr after_pair"
    unfolding after_pair_def
  proof (rule cluster_step_accepted [OF _ _ repeated_pair_centre repeated_pair_dist])
    show "map_of ?ac 3 = Some [1, 2]" by simp
    show "set [1, 2] \<inter> set (assigned after_nan) = {}"
      by (simp add: after_nan_def init_state_def)
    show "0.005 < get_rad (real (length [1, 2::nat]) powr (- 0.5)) fwhm_default nu_default"
      using break_even_2_large by simp
  qed
  have sel: "select_loop sphere repeated_target ?ac ?seps [4, 3] (init_state repeated_target)
               = Inr after_pair"
    by (simp only: select_loop.simps s4 s3 sum.case)
  have asg: "assigned after_pair = [1, 2]"
    by (simp add: after_pair_def after_nan_def accept_fields init_state_def)
  have info: "cluster_info after_pair =
     [(3, \<lparr>members = [1, 2],
               centroid = Scalar (calc_centroid sphere [Spherical 0.01 0, Spherical 0 0]),
               int_time = beam_fit (0.005 * 60) fwhm_default nu_default powi (- 2) / 2\<rparr>)]"
    by (simp add: after_pair_def after_nan_def accept_fields init_state_def)
  have sing: "singles_loop repeated_target [0..<length repeated_target] after_pair =
      Inr (after_pair\<lparr>cluster_info := cluster_info after_pair
              @ map (single_info repeated_target [1, 2])
                    (filter (\<lambda>c. c \<notin> set (assigned after_pair)) [0..<length repeated_target])\<rparr>)"
  proof (rule singles_loop_result)
    show "loop_members after_pair = Some [1, 2]" by (simp add: after_pair_def accept_fields)
    show "set [1, 2] \<subseteq> {0..<length repeated_target}" by (simp add: repeated_target_def)
    show "distinct [0..<length repeated_target]" by simp
    show "fst ` set (cluster_info after_pair) \<inter> set [0..<length repeated_target] = {}"
      by (simp add: info repeated_target_def)
  qed
  have rest: "map (single_info repeated_target [1, 2])
                (filter (\<lambda>c. c \<notin> set (assigned after_pair)) [0..<length repeated_target])
              = [(0, \<lparr>members = [0], centroid = Array [Spherical 0.01 0, Spherical 0 0],
                       int_time = 1\<rparr>)]"
    by (simp add: asg repeated_target_def upt_rec single_info_def)
  show ?thesis
    by (simp only: repeated_target_clusters_def do_clustering_def keys sel sing sum.case rest info)
       simp
qed

text \<open>
  C9, amended. For every candidate cluster with unassigned members whose centre is NaN
  (the circumcentre's cross product has length zero), the step raises nothing and
  changes neither \<open>assigned\<close> nor \<open>clusters\<close> nor \<open>cluster_info\<close>: the cluster is rejected
  silently, and its members stay available to the smaller clusters and to the second
  loop.
\<close>

theorem nan_centre_rejected_silently:
  assumes "map_of all_clusters c_num = Some ms"
    and "set ms \<inter> set (assigned st) = {}"
    and "get_centre lib ms coords seps = Inr None"
  shows "\<exists>st'. cluster_step lib coords all_clusters seps c_num st = Inr st'
           \<and> assigned st' = assigned st \<and> clusters st' = clusters st
           \<and> cluster_info st' = cluster_info st"
  using cluster_step_nan [OF assms] by simp

theorem nan_centre_rejected_silently_witness:
  "map_of repeated_target_clusters 4 = Some [0, 1, 2]
   \<and> set [0, 1, 2] \<inter> set (assigned (init_state repeated_target)) = {}
   \<and> get_centre sphere [0, 1, 2] repeated_target (calc_separation sphere repeated_target)
       = Inr None
   \<and> (\<exists>st'. cluster_step sphere repeated_target repeated_target_clusters
                (calc_separation sphere repeated_target) 4 (init_state repeated_target)
                = Inr st'
           \<and> assigned st' = assigned (init_state repeated_target)
           \<and> clusters st' = clusters (init_state repeated_target)
           \<and> cluster_info st' = cluster_info (init_state repeated_target))"
proof -
  have 1: "map_of repeated_target_clusters 4 = Some [0, 1, 2]"
    by (simp add: repeated_target_clusters_def)
  have 2: "set [0, 1, 2] \<inter> set (assigned (init_state repeated_target)) = {}"
    by (simp add: init_state_def)
  show ?thesis
    using 1 2 repeated_root_centre
      nan_centre_rejected_silently [OF 1 2 repeated_root_centre]
    by blast
qed

end
